theory Spec2Isabelle
  imports Complex_Main "HOL-Library.Char_ord" "HOL-Library.List_Lexorder" "HOL-Library.AList"
begin

section \<open>Enumerations (models/Enums.h)\<close>

datatype SIPFrequency = WEEKLY | MONTHLY | QUARTERLY

datatype SIPState = ACTIVE | PAUSED | STOPPED

datatype PaymentStatus = PENDING | SUCCESS | FAILURE

datatype TransactionType = INSTALLMENT | LUMP_SUM

fun toString_SIPState :: "SIPState \<Rightarrow> string" where
  "toString_SIPState ACTIVE = ''ACTIVE''"
| "toString_SIPState PAUSED = ''PAUSED''"
| "toString_SIPState STOPPED = ''STOPPED''"

section \<open>Exceptions (utils/Exceptions.h)\<close>

text \<open>
  Every exception class of the program is a constructor carrying the values its C++
  constructor stores. \<open>InvalidStateException\<close> keeps the SIP id, the printed current
  state and the operation name, in that order.
\<close>

datatype error =
    FundNotFoundException string
  | SIPNotFoundException string
  | UserNotFoundException string
  | InvalidStateException string string string
  | ValidationException string
  | TransactionNotFoundException string

fun what :: "error \<Rightarrow> string" where
  "what (FundNotFoundException fundId) = ''Fund not found: '' @ fundId"
| "what (SIPNotFoundException sipId) = ''SIP not found: '' @ sipId"
| "what (UserNotFoundException userId) = ''User not found: '' @ userId"
| "what (InvalidStateException sipId currentState operation) =
     ''Invalid operation '' @ [CHR 0x27] @ operation @ [CHR 0x27] @ '' for SIP '' @ sipId
       @ '' in state '' @ currentState"
| "what (ValidationException message) = ''Validation error: '' @ message"
| "what (TransactionNotFoundException transactionId) = ''Transaction not found: '' @ transactionId"

section \<open>Calendar utility (utils/DateUtils.h)\<close>

text \<open>
  A \<open>Date\<close> is a \<open>std::chrono::system_clock::time_point\<close>: a signed 64-bit count of
  clock ticks since the epoch, one tick being a nanosecond with the g++ library the README
  builds with. Dates are integers here, and every operation of the program that can leave
  the 64-bit range wraps around explicitly (\<open>wrap64\<close>, and \<open>wrap32\<close> for an \<open>int\<close>),
  as the compiled two's complement arithmetic does; \<open>int64_range\<close> says that a value is
  representable. \<open>to_time_t\<close>
  truncates towards zero to whole seconds, \<open>from_time_t\<close> multiplies back.

  \<open>localtime\<close> and \<open>mktime\<close> belong to the C library, not to the program, and read the
  time zone of the process. A time zone is given by its UTC offset in standard time, its
  offset in daylight-saving time, and the instants at which daylight saving is in force
  (none, for a zone without it); a zone whose standard offset has itself changed over the
  years is not covered. \<open>localtime\<close> reads an instant at the offset in force at
  that instant and sets \<open>tm_isdst\<close>; \<open>mktime\<close> reads the fields at the offset that
  \<open>tm_isdst\<close> asks for, standard for 0 and daylight saving for a positive flag, and
  decides itself when the flag is negative. Both are built on the calendar of UTC:
  \<open>civil_seconds\<close> is the POSIX seconds-since-the-epoch formula and \<open>civil_time\<close> is
  its inverse, found by a bounded search for the year and the month. POSIX time has no
  leap seconds. Only the fields \<open>addMonths\<close> touches, and \<open>tm_isdst\<close>, are kept in
  \<open>tm\<close>.
\<close>

type_synonym Date = int

record tm =
  tm_sec :: int
  tm_min :: int
  tm_hour :: int
  tm_mday :: int
  tm_mon :: int
  tm_year :: int
  tm_isdst :: int

record time_zone =
  std_offset :: int
  dst_offset :: int
  in_dst :: "int \<Rightarrow> bool"

definition utc_offset :: "time_zone \<Rightarrow> int \<Rightarrow> int" where
  "utc_offset zone t = (if in_dst zone t then dst_offset zone else std_offset zone)"

definition wrap32 :: "int \<Rightarrow> int" where
  "wrap32 x = (x + 2147483648) mod 4294967296 - 2147483648"

definition wrap64 :: "int \<Rightarrow> int" where
  "wrap64 x = (x + 9223372036854775808) mod 18446744073709551616 - 9223372036854775808"

definition int64_range :: "int \<Rightarrow> bool" where
  "int64_range x \<longleftrightarrow> - 9223372036854775808 \<le> x \<and> x \<le> 9223372036854775807"

definition ticks_per_second :: int where
  "ticks_per_second = 1000000000"

definition to_time_t :: "Date \<Rightarrow> int" where
  "to_time_t d = (if 0 \<le> d then d div ticks_per_second else - ((- d) div ticks_per_second))"

definition from_time_t :: "int \<Rightarrow> Date" where
  "from_time_t t = wrap64 (t * ticks_per_second)"

definition isLeapYear :: "int \<Rightarrow> bool" where
  "isLeapYear year \<longleftrightarrow> (year mod 4 = 0 \<and> year mod 100 \<noteq> 0) \<or> year mod 400 = 0"

definition daysInMonth :: "int list" where
  "daysInMonth = [31, 28, 31, 30, 31, 30, 31, 31, 30, 31, 30, 31]"

text \<open>
  \<open>getDaysInMonth\<close> reads the table at \<open>month - 1\<close>; the program calls it only from
  \<open>addMonths\<close>, after the month has been normalised to \<open>0..11\<close> and one added
  (lemma \<open>normalize_month_range\<close> below), so the read is always in range.
\<close>

definition getDaysInMonth :: "int \<Rightarrow> int \<Rightarrow> int" where
  "getDaysInMonth year month =
     (let days = daysInMonth ! nat (month - 1)
      in if month = 2 \<and> isLeapYear year then 29 else days)"

definition leaps_before :: "int \<Rightarrow> int" where
  "leaps_before y = (y - 1) div 4 - (y - 1) div 100 + (y - 1) div 400"

definition days_before_year :: "int \<Rightarrow> int" where
  "days_before_year y = 365 * (y - 1970) + (leaps_before y - 477)"

definition days_before_month :: "int \<Rightarrow> int \<Rightarrow> int" where
  "days_before_month y m =
     [0, 31, 59, 90, 120, 151, 181, 212, 243, 273, 304, 334, 365] ! nat m
       + (if 2 \<le> m \<and> isLeapYear y then 1 else 0)"

definition days_from_civil :: "int \<Rightarrow> int \<Rightarrow> int \<Rightarrow> int" where
  "days_from_civil y m d =
     days_before_year (y + m div 12) + days_before_month (y + m div 12) (m mod 12) + (d - 1)"

definition civil_seconds :: "tm \<Rightarrow> int" where
  "civil_seconds t = days_from_civil (tm_year t + 1900) (tm_mon t) (tm_mday t) * 86400
                + tm_hour t * 3600 + tm_min t * 60 + tm_sec t"

lemma div_step_gen:
  fixes y k :: int
  assumes "0 < k"
  shows "y div k - (y - 1) div k = (if y mod k = 0 then 1 else 0)"
proof -
  have eq: "y = k * (y div k) + y mod k" by simp
  have bounds: "0 \<le> y mod k" "y mod k < k" using assms by simp_all
  show ?thesis
  proof (cases "y mod k = 0")
    case True
    have "y - 1 = k * (y div k - 1) + (k - 1)"
      using eq True by (simp add: algebra_simps)
    then have "(y - 1) div k = y div k - 1"
      by (rule int_div_pos_eq) (use assms in simp_all)
    with True show ?thesis by simp
  next
    case False
    have "y - 1 = k * (y div k) + (y mod k - 1)"
      using eq by simp
    then have "(y - 1) div k = y div k"
      by (rule int_div_pos_eq) (use bounds False in simp_all)
    with False show ?thesis by simp
  qed
qed

lemma mod_400_100: "y mod 400 = 0 \<Longrightarrow> y mod 100 = 0" for y :: int
proof -
  assume "y mod 400 = 0"
  then have "400 dvd y" by (simp add: dvd_eq_mod_eq_0)
  moreover have "(100::int) dvd 400" by simp
  ultimately have "100 dvd y" by (rule dvd_trans [rotated])
  then show ?thesis by (simp add: dvd_eq_mod_eq_0)
qed

lemma mod_100_4: "y mod 100 = 0 \<Longrightarrow> y mod 4 = 0" for y :: int
proof -
  assume "y mod 100 = 0"
  then have "100 dvd y" by (simp add: dvd_eq_mod_eq_0)
  moreover have "(4::int) dvd 100" by simp
  ultimately have "4 dvd y" by (rule dvd_trans [rotated])
  then show ?thesis by (simp add: dvd_eq_mod_eq_0)
qed

lemma leaps_step: "leaps_before (y + 1) = leaps_before y + (if isLeapYear y then 1 else 0)"
proof -
  define q4 q100 q400 where "q4 = (y - 1) div 4" and "q100 = (y - 1) div 100"
    and "q400 = (y - 1) div 400"
  define p4 p100 p400 where "p4 = y div 4" and "p100 = y div 100" and "p400 = y div 400"
  define b4 b100 b400 where "b4 \<longleftrightarrow> y mod 4 = 0" and "b100 \<longleftrightarrow> y mod 100 = 0"
    and "b400 \<longleftrightarrow> y mod 400 = 0"
  have s4: "p4 - q4 = (if b4 then 1 else 0)"
    unfolding p4_def q4_def b4_def by (rule div_step_gen) simp
  have s100: "p100 - q100 = (if b100 then 1 else 0)"
    unfolding p100_def q100_def b100_def by (rule div_step_gen) simp
  have s400: "p400 - q400 = (if b400 then 1 else 0)"
    unfolding p400_def q400_def b400_def by (rule div_step_gen) simp
  have chain: "b400 \<longrightarrow> b100" "b100 \<longrightarrow> b4"
    unfolding b4_def b100_def b400_def using mod_400_100 [of y] mod_100_4 [of y] by blast+
  have L1: "leaps_before (y + 1) = p4 - p100 + p400"
    unfolding leaps_before_def p4_def p100_def p400_def by simp
  have L0: "leaps_before y = q4 - q100 + q400"
    unfolding leaps_before_def q4_def q100_def q400_def by simp
  have leap: "isLeapYear y \<longleftrightarrow> (b4 \<and> \<not> b100) \<or> b400"
    unfolding isLeapYear_def b4_def b100_def b400_def by simp
  show ?thesis
    unfolding L1 L0 leap using s4 s100 s400 chain
    by (cases b4; cases b100; cases b400; simp)
qed

lemma year_length:
  "days_before_year (y + 1) = days_before_year y + (if isLeapYear y then 366 else 365)"
  unfolding days_before_year_def by (simp add: leaps_step)




function find_year :: "int \<Rightarrow> int \<Rightarrow> int" where
  "find_year y z = (if days_before_year (y + 1) \<le> z then find_year (y + 1) z else y)"
  by pat_completeness auto
termination
proof (relation "measure (\<lambda>(y, z). nat (z + 1 - days_before_year (y + 1)))")
  show "wf (measure (\<lambda>(y, z). nat (z + 1 - days_before_year (y + 1))))" by simp
next
  fix y z :: int
  assume "days_before_year (y + 1) \<le> z"
  moreover have "days_before_year (y + 1 + 1) > days_before_year (y + 1)"
    using year_length [of "y + 1"] by (simp split: if_splits)
  ultimately show "((y + 1, z), (y, z)) \<in> measure (\<lambda>(y, z). nat (z + 1 - days_before_year (y + 1)))"
    by simp
qed

function find_month :: "int \<Rightarrow> int \<Rightarrow> int \<Rightarrow> int" where
  "find_month y d m =
     (if m < 11 \<and> days_before_month y (m + 1) \<le> d then find_month y d (m + 1) else m)"
  by pat_completeness auto
termination
  by (relation "measure (\<lambda>(y, d, m). nat (11 - m))") auto

definition year_guess :: "int \<Rightarrow> int" where
  "year_guess z = 1970 + (if 0 \<le> z then z div 366 else z div 365)"

definition civil_time :: "int \<Rightarrow> tm" where
  "civil_time t =
     (let z = t div 86400; r = t mod 86400;
          y = find_year (year_guess z) z;
          doy = z - days_before_year y;
          m = find_month y doy 0
      in \<lparr> tm_sec = r mod 60, tm_min = (r mod 3600) div 60, tm_hour = r div 3600,
           tm_mday = doy - days_before_month y m + 1, tm_mon = m, tm_year = y - 1900,
           tm_isdst = 0 \<rparr>)"

definition localtime :: "time_zone \<Rightarrow> int \<Rightarrow> tm" where
  "localtime zone t =
     (civil_time (t + utc_offset zone t))\<lparr>tm_isdst := (if in_dst zone t then 1 else 0)\<rparr>"

definition mktime :: "time_zone \<Rightarrow> tm \<Rightarrow> int" where
  "mktime zone t =
     (let fields = civil_seconds t
      in if 0 < tm_isdst t then fields - dst_offset zone
         else if tm_isdst t = 0 then fields - std_offset zone
         else if in_dst zone (fields - std_offset zone) then fields - dst_offset zone
         else fields - std_offset zone)"

declare find_year.simps [simp del]
declare find_month.simps [simp del]



lemma month_cases:
  fixes m :: int
  assumes "0 \<le> m" "m \<le> 11"
  shows "m = 0 \<or> m = 1 \<or> m = 2 \<or> m = 3 \<or> m = 4 \<or> m = 5 \<or> m = 6 \<or> m = 7 \<or> m = 8
           \<or> m = 9 \<or> m = 10 \<or> m = 11"
  using assms by arith



















text \<open>
  The two \<open>while\<close> loops of \<open>addMonths\<close> that bring \<open>tm_mon\<close> back into \<open>0..11\<close>.
\<close>

function normalize_overflow :: "tm \<Rightarrow> tm" where
  "normalize_overflow t =
     (if 11 < tm_mon t
      then normalize_overflow (t\<lparr>tm_mon := tm_mon t - 12, tm_year := tm_year t + 1\<rparr>)
      else t)"
  by pat_completeness auto
termination
  by (relation "measure (\<lambda>t. nat (tm_mon t))") auto

function normalize_underflow :: "tm \<Rightarrow> tm" where
  "normalize_underflow t =
     (if tm_mon t < 0
      then normalize_underflow (t\<lparr>tm_mon := tm_mon t + 12, tm_year := tm_year t - 1\<rparr>)
      else t)"
  by pat_completeness auto
termination
  by (relation "measure (\<lambda>t. nat (- tm_mon t))") auto

declare normalize_overflow.simps [simp del]
declare normalize_underflow.simps [simp del]

text \<open>
  In \<open>addWeeks\<close> the number of hours is a product of \<open>int\<close>s; its conversion to ticks
  and the addition to the date are 64-bit operations. \<open>addMonths\<close> leaves the 64-bit range
  only in \<open>from_time_t\<close>, \<open>time_t\<close> being a 64-bit count of seconds.
\<close>

definition addWeeks :: "Date \<Rightarrow> int \<Rightarrow> Date" where
  "addWeeks date weeks =
     wrap64 (date + wrap64 (wrap32 (24 * 7 * weeks) * 3600 * ticks_per_second))"

definition addMonths :: "time_zone \<Rightarrow> Date \<Rightarrow> int \<Rightarrow> Date" where
  "addMonths zone date months =
     (let time = to_time_t date;
          t0 = localtime zone time;
          originalDay = tm_mday t0;
          t1 = t0\<lparr>tm_mon := tm_mon t0 + months\<rparr>;
          t2 = normalize_underflow (normalize_overflow t1);
          dim = getDaysInMonth (tm_year t2 + 1900) (tm_mon t2 + 1);
          t3 = (if originalDay > dim then t2\<lparr>tm_mday := dim\<rparr> else t2\<lparr>tm_mday := originalDay\<rparr>)
      in from_time_t (mktime zone t3))"

definition addQuarters :: "time_zone \<Rightarrow> Date \<Rightarrow> int \<Rightarrow> Date" where
  "addQuarters zone date quarters = addMonths zone date (wrap32 (quarters * 3))"

definition isOnOrBefore :: "Date \<Rightarrow> Date \<Rightarrow> bool" where
  "isOnOrBefore date1 date2 \<longleftrightarrow> date1 \<le> date2"

lemma month_shift_down: "((x::int) - 12) mod 12 = x mod 12" "((x::int) - 12) div 12 = x div 12 - 1"
  using div_mult_self1 [of 12 x "-1"] by simp_all
lemma month_shift_up: "((x::int) + 12) mod 12 = x mod 12" "((x::int) + 12) div 12 = x div 12 + 1"
  by simp_all
lemma month_once_over:
  fixes x :: int
  assumes "11 < x" "\<not> 11 < x - 12"
  shows "x mod 12 = x - 12" "x div 12 = 1"
proof -
  have e: "x = 12 * 1 + (x - 12)" by simp
  show "x mod 12 = x - 12" by (rule int_mod_pos_eq [OF e]) (use assms in simp_all)
  show "x div 12 = 1" by (rule int_div_pos_eq [OF e]) (use assms in simp_all)
qed
lemma month_once_under:
  fixes x :: int
  assumes "x < 0" "\<not> x + 12 < 0"
  shows "x mod 12 = x + 12" "x div 12 = - 1"
proof -
  have e: "x = 12 * (- 1) + (x + 12)" by simp
  show "x mod 12 = x + 12" by (rule int_mod_pos_eq [OF e]) (use assms in simp_all)
  show "x div 12 = - 1" by (rule int_div_pos_eq [OF e]) (use assms in simp_all)
qed

lemma normalize_overflow_eq:
  "normalize_overflow t =
     (if 11 < tm_mon t
      then t\<lparr>tm_mon := tm_mon t mod 12, tm_year := tm_year t + tm_mon t div 12\<rparr> else t)"
proof (induction t rule: normalize_overflow.induct)
  case (1 t)
  show ?case
  proof (cases "11 < tm_mon t")
    case False
    then show ?thesis by (simp add: normalize_overflow.simps [of t])
  next
    case True
    let ?t' = "t\<lparr>tm_mon := tm_mon t - 12, tm_year := tm_year t + 1\<rparr>"
    note dm = month_shift_down [of "tm_mon t"]
    have small: "\<not> 11 < tm_mon t - 12 \<Longrightarrow> tm_mon t mod 12 = tm_mon t - 12 \<and> tm_mon t div 12 = 1"
      using True month_once_over [of "tm_mon t"] by simp
    have "normalize_overflow t = normalize_overflow ?t'"
      using True by (simp add: normalize_overflow.simps [of t])
    also have "\<dots> = t\<lparr>tm_mon := tm_mon t mod 12, tm_year := tm_year t + tm_mon t div 12\<rparr>"
    proof (cases "11 < tm_mon t - 12")
      case True
      then show ?thesis using "1.IH" [OF \<open>11 < tm_mon t\<close>] by (simp add: dm)
    next
      case False
      then show ?thesis using "1.IH" [OF \<open>11 < tm_mon t\<close>] small by simp
    qed
    finally show ?thesis using True by simp
  qed
qed

lemma normalize_underflow_eq:
  "normalize_underflow t =
     (if tm_mon t < 0
      then t\<lparr>tm_mon := tm_mon t mod 12, tm_year := tm_year t + tm_mon t div 12\<rparr> else t)"
proof (induction t rule: normalize_underflow.induct)
  case (1 t)
  show ?case
  proof (cases "tm_mon t < 0")
    case False
    then show ?thesis by (simp add: normalize_underflow.simps [of t])
  next
    case True
    let ?t' = "t\<lparr>tm_mon := tm_mon t + 12, tm_year := tm_year t - 1\<rparr>"
    note dm = month_shift_up [of "tm_mon t"]
    have small: "\<not> tm_mon t + 12 < 0 \<Longrightarrow> tm_mon t mod 12 = tm_mon t + 12 \<and> tm_mon t div 12 = - 1"
      using True month_once_under [of "tm_mon t"] by simp
    have "normalize_underflow t = normalize_underflow ?t'"
      using True by (simp add: normalize_underflow.simps [of t])
    also have "\<dots> = t\<lparr>tm_mon := tm_mon t mod 12, tm_year := tm_year t + tm_mon t div 12\<rparr>"
    proof (cases "tm_mon t + 12 < 0")
      case True
      then show ?thesis using "1.IH" [OF \<open>tm_mon t < 0\<close>] by (simp add: dm)
    next
      case False
      then show ?thesis using "1.IH" [OF \<open>tm_mon t < 0\<close>] small by simp
    qed
    finally show ?thesis using True by simp
  qed
qed

lemma normalize_month:
  "normalize_underflow (normalize_overflow t) =
     t\<lparr>tm_mon := tm_mon t mod 12, tm_year := tm_year t + tm_mon t div 12\<rparr>"
proof -
  consider "11 < tm_mon t" | "tm_mon t < 0" | "0 \<le> tm_mon t" "tm_mon t \<le> 11" by linarith
  then show ?thesis
  proof cases
    case 1
    have "0 \<le> tm_mon t mod 12" by simp
    then show ?thesis
      using 1 by (simp add: normalize_overflow_eq normalize_underflow_eq)
  next
    case 2
    then show ?thesis by (simp add: normalize_overflow_eq normalize_underflow_eq)
  next
    case 3
    then have "tm_mon t mod 12 = tm_mon t" "tm_mon t div 12 = 0" by simp_all
    then show ?thesis using 3 by (simp add: normalize_overflow_eq normalize_underflow_eq)
  qed
qed

lemma normalize_month_range:
  "0 \<le> tm_mon (normalize_underflow (normalize_overflow t))"
  "tm_mon (normalize_underflow (normalize_overflow t)) \<le> 11"
  by (simp_all add: normalize_month)




lemma ticks_pos: "0 < ticks_per_second"
  by (simp add: ticks_per_second_def)


lemma wrap64_id: "int64_range x \<Longrightarrow> wrap64 x = x"
proof -
  assume "int64_range x"
  then have "0 \<le> x + 9223372036854775808" "x + 9223372036854775808 < 18446744073709551616"
    by (simp_all add: int64_range_def)
  then have "(x + 9223372036854775808) mod 18446744073709551616 = x + 9223372036854775808"
    by (rule mod_pos_pos_trivial)
  then show ?thesis by (simp add: wrap64_def)
qed

lemma to_time_t_ticks: "to_time_t (t * ticks_per_second) = t"
proof (cases "0 \<le> t")
  case True
  then have "0 \<le> t * ticks_per_second" using ticks_pos by simp
  then show ?thesis using ticks_pos by (simp add: to_time_t_def)
next
  case False
  then have "\<not> 0 \<le> t * ticks_per_second"
    using ticks_pos by (simp add: mult_less_0_iff not_le)
  moreover have "(- (t * ticks_per_second)) div ticks_per_second = - t"
  proof -
    have ne: "ticks_per_second \<noteq> 0" using ticks_pos by simp
    have "(- (t * ticks_per_second)) div ticks_per_second
            = ((- t) * ticks_per_second) div ticks_per_second" by simp
    also have "\<dots> = - t" by (rule nonzero_mult_div_cancel_right [OF ne])
    finally show ?thesis .
  qed
  ultimately show ?thesis by (simp add: to_time_t_def)
qed

text \<open>
  \<open>mktime\<close> on fields that carry the flag \<open>localtime\<close> has set at an instant reads them
  at the offset in force at that instant.
\<close>

lemma mktime_hint:
  "tm_isdst x = (if in_dst zone t then 1 else 0) \<Longrightarrow>
     mktime zone x = civil_seconds x - utc_offset zone t"
  by (simp add: mktime_def utc_offset_def Let_def)

definition moved_fields :: "tm \<Rightarrow> int \<Rightarrow> tm" where
  "moved_fields t0 months =
     t0\<lparr>tm_mon := (tm_mon t0 + months) mod 12,
        tm_year := tm_year t0 + (tm_mon t0 + months) div 12,
        tm_mday :=
          min (tm_mday t0)
            (getDaysInMonth (tm_year t0 + (tm_mon t0 + months) div 12 + 1900)
               ((tm_mon t0 + months) mod 12 + 1))\<rparr>"

lemma addMonths_unfold:
  "addMonths zone date months =
     from_time_t
       (civil_seconds
          (moved_fields (civil_time (to_time_t date + utc_offset zone (to_time_t date))) months)
        - utc_offset zone (to_time_t date))"
proof -
  define t where "t = to_time_t date"
  define t0 where "t0 = civil_time (t + utc_offset zone t)"
  define L where "L = localtime zone t"
  have L: "tm_isdst L = (if in_dst zone t then 1 else 0)" "tm_mon L = tm_mon t0"
    "tm_year L = tm_year t0" "tm_mday L = tm_mday t0" "tm_hour L = tm_hour t0"
    "tm_min L = tm_min t0" "tm_sec L = tm_sec t0"
    by (simp_all add: L_def localtime_def t0_def)
  define t2 where "t2 = normalize_underflow (normalize_overflow (L\<lparr>tm_mon := tm_mon L + months\<rparr>))"
  have t2: "t2 = L\<lparr>tm_mon := (tm_mon L + months) mod 12,
                    tm_year := tm_year L + (tm_mon L + months) div 12\<rparr>"
    by (simp add: t2_def normalize_month)
  define dim where "dim = getDaysInMonth (tm_year t2 + 1900) (tm_mon t2 + 1)"
  define t3 where "t3 = (if tm_mday L > dim then t2\<lparr>tm_mday := dim\<rparr> else t2\<lparr>tm_mday := tm_mday L\<rparr>)"
  have code: "addMonths zone date months = from_time_t (mktime zone t3)"
    by (simp add: addMonths_def Let_def t3_def dim_def t2_def L_def t_def)
  have "tm_isdst t3 = (if in_dst zone t then 1 else 0)"
    by (simp add: t3_def t2 L)
  then have "mktime zone t3 = civil_seconds t3 - utc_offset zone t" by (rule mktime_hint)
  moreover have "civil_seconds t3 = civil_seconds (moved_fields t0 months)"
    by (simp add: t3_def t2 dim_def civil_seconds_def moved_fields_def L min_def)
  ultimately show ?thesis unfolding code by (simp add: t_def t0_def)
qed


section \<open>Entities (models/SIP.h, models/Transaction.h)\<close>

text \<open>
  The private members of the two classes, with the getters and setters as record
  selectors and updates. Field names carry the prefix \<open>sip_\<close> or \<open>txn_\<close> because both
  classes have members called \<open>id\<close>. A C++ \<open>double\<close> is modelled as a real number:
  rounding, infinities and NaN are outside the model. The one quotient of the program
  whose divisor may be zero is \<open>amount / nav\<close> in \<open>executeSIP\<close>, where the real
  quotient is 0 and the floating-point one is not; the statements about it below are
  made for prices other than zero. \<open>installmentCount\<close> is a mathematical integer; the
  32-bit range of \<open>int\<close> is never approached by a counter of installments.
\<close>

record SIP =
  sip_id :: string
  sip_userId :: string
  sip_fundId :: string
  sip_baseAmount :: real
  sip_frequency :: SIPFrequency
  sip_state :: SIPState
  sip_startDate :: Date
  sip_nextExecutionDate :: Date
  sip_installmentCount :: int
  sip_stepUpPercentage :: real

definition incrementInstallmentCount :: "SIP \<Rightarrow> SIP" where
  "incrementInstallmentCount sip = sip\<lparr>sip_installmentCount := sip_installmentCount sip + 1\<rparr>"

record Transaction =
  txn_id :: string
  txn_sipId :: string
  txn_amount :: real
  txn_units :: real
  txn_nav :: real
  txn_status :: PaymentStatus
  txn_date :: Date
  txn_type :: TransactionType
  txn_callbackProcessed :: bool

text \<open>The six-argument constructor of \<open>Transaction\<close>, with its guarded unit computation.\<close>

definition Transaction_new ::
  "string \<Rightarrow> string \<Rightarrow> real \<Rightarrow> real \<Rightarrow> Date \<Rightarrow> TransactionType \<Rightarrow> Transaction" where
  "Transaction_new ident sipId amount nav date type =
     \<lparr> txn_id = ident, txn_sipId = sipId, txn_amount = amount,
       txn_units = (if nav > 0 then amount / nav else 0),
       txn_nav = nav, txn_status = PENDING, txn_date = date, txn_type = type,
       txn_callbackProcessed = False \<rparr>"

section \<open>Identifier generator (utils/IdGenerator.h)\<close>

text \<open>
  The process-wide 64-bit counter is passed in and returned. \<open>decimal\<close> prints a number
  as the stream does, \<open>setw(6)\<close> with fill character \<open>0\<close> pads it on the left.
\<close>

definition digit_char :: "nat \<Rightarrow> char" where
  "digit_char n = ''0123456789'' ! n"

function decimal :: "nat \<Rightarrow> string" where
  "decimal n = (if n < 10 then [digit_char n] else decimal (n div 10) @ [digit_char (n mod 10)])"
  by pat_completeness auto
termination
  by (relation "measure (\<lambda>n. n)") auto

declare decimal.simps [simp del]

definition setw_fill0 :: "nat \<Rightarrow> string \<Rightarrow> string" where
  "setw_fill0 w str = replicate (w - length str) (CHR ''0'') @ str"

definition generateSimple :: "string \<Rightarrow> nat \<Rightarrow> string \<times> nat" where
  "generateSimple prefix counter =
     (prefix @ ''_'' @ setw_fill0 6 (decimal counter), (counter + 1) mod 2 ^ 64)"

definition generateTransactionId :: "nat \<Rightarrow> string \<times> nat" where
  "generateTransactionId counter = generateSimple ''TXN'' counter"

section \<open>Repositories\<close>

text \<open>
  A \<open>std::unordered_map\<close> whose entries are iterated is an association list: the list
  order stands for the iteration order of the hash table, which the C++ standard leaves
  open, so nothing below depends on it. \<open>storage[k] = v\<close> overwrites in place or adds an
  entry. The secondary indexes are never iterated, only looked up, so they are maps; a
  \<open>std::set\<close> of identifiers is the sorted list of its elements. \<open>index[k]\<close> creates an
  empty set for a missing key, as \<open>operator[]\<close> does.
\<close>

definition set_insert :: "string \<Rightarrow> string list \<Rightarrow> string list" where
  "set_insert x xs = (if x \<in> set xs then xs else insort x xs)"

definition set_erase :: "string \<Rightarrow> string list \<Rightarrow> string list" where
  "set_erase x xs = removeAll x xs"

definition index_at :: "(string \<rightharpoonup> string list) \<Rightarrow> string \<Rightarrow> string list" where
  "index_at idx k = (case idx k of None \<Rightarrow> [] | Some xs \<Rightarrow> xs)"

definition index_insert :: "string \<Rightarrow> string \<Rightarrow> (string \<rightharpoonup> string list) \<Rightarrow> (string \<rightharpoonup> string list)" where
  "index_insert k x idx = idx(k \<mapsto> set_insert x (index_at idx k))"

definition index_erase :: "string \<Rightarrow> string \<Rightarrow> (string \<rightharpoonup> string list) \<Rightarrow> (string \<rightharpoonup> string list)" where
  "index_erase k x idx = idx(k \<mapsto> set_erase x (index_at idx k))"

subsection \<open>repositories/InMemoryTransactionRepository.h\<close>

record InMemoryTransactionRepository =
  txn_storage :: "(string \<times> Transaction) list"
  sipIndex :: "string \<rightharpoonup> string list"

definition TxnRepo_add :: "Transaction \<Rightarrow> InMemoryTransactionRepository \<Rightarrow> InMemoryTransactionRepository" where
  "TxnRepo_add transaction r =
     r\<lparr> txn_storage := AList.update (txn_id transaction) transaction (txn_storage r),
        sipIndex := index_insert (txn_sipId transaction) (txn_id transaction) (sipIndex r) \<rparr>"

definition TxnRepo_getById :: "string \<Rightarrow> InMemoryTransactionRepository \<Rightarrow> Transaction option" where
  "TxnRepo_getById ident r = map_of (txn_storage r) ident"

definition TxnRepo_update ::
  "Transaction \<Rightarrow> InMemoryTransactionRepository \<Rightarrow> bool \<times> InMemoryTransactionRepository" where
  "TxnRepo_update transaction r =
     (case map_of (txn_storage r) (txn_id transaction) of
        Some old \<Rightarrow>
          (True,
           r\<lparr> sipIndex :=
                 (if txn_sipId old \<noteq> txn_sipId transaction
                  then index_insert (txn_sipId transaction) (txn_id transaction)
                         (index_erase (txn_sipId old) (txn_id transaction) (sipIndex r))
                  else sipIndex r),
              txn_storage := AList.update (txn_id transaction) transaction (txn_storage r) \<rparr>)
      | None \<Rightarrow> (False, r))"

definition TxnRepo_getBySipId :: "string \<Rightarrow> InMemoryTransactionRepository \<Rightarrow> Transaction list" where
  "TxnRepo_getBySipId sipId r =
     (case sipIndex r sipId of
        Some ids \<Rightarrow> List.map_filter (map_of (txn_storage r)) ids
      | None \<Rightarrow> [])"

definition TxnRepo_getSuccessfulBySipId :: "string \<Rightarrow> InMemoryTransactionRepository \<Rightarrow> Transaction list" where
  "TxnRepo_getSuccessfulBySipId sipId r =
     filter (\<lambda>txn. txn_status txn = SUCCESS) (TxnRepo_getBySipId sipId r)"

subsection \<open>repositories/InMemorySIPRepository.h\<close>

record InMemorySIPRepository =
  sip_storage :: "(string \<times> SIP) list"
  userIndex :: "string \<rightharpoonup> string list"
  fundIndex :: "string \<rightharpoonup> string list"

definition addToIndexes :: "SIP \<Rightarrow> InMemorySIPRepository \<Rightarrow> InMemorySIPRepository" where
  "addToIndexes sip r =
     r\<lparr> userIndex := index_insert (sip_userId sip) (sip_id sip) (userIndex r),
        fundIndex := index_insert (sip_fundId sip) (sip_id sip) (fundIndex r) \<rparr>"

definition removeFromIndexes :: "SIP \<Rightarrow> InMemorySIPRepository \<Rightarrow> InMemorySIPRepository" where
  "removeFromIndexes sip r =
     r\<lparr> userIndex := index_erase (sip_userId sip) (sip_id sip) (userIndex r),
        fundIndex := index_erase (sip_fundId sip) (sip_id sip) (fundIndex r) \<rparr>"

definition SIPRepo_add :: "SIP \<Rightarrow> InMemorySIPRepository \<Rightarrow> InMemorySIPRepository" where
  "SIPRepo_add sip r = addToIndexes sip (r\<lparr>sip_storage := AList.update (sip_id sip) sip (sip_storage r)\<rparr>)"

definition SIPRepo_getById :: "string \<Rightarrow> InMemorySIPRepository \<Rightarrow> SIP option" where
  "SIPRepo_getById ident r = map_of (sip_storage r) ident"

definition SIPRepo_update :: "SIP \<Rightarrow> InMemorySIPRepository \<Rightarrow> bool \<times> InMemorySIPRepository" where
  "SIPRepo_update sip r =
     (case map_of (sip_storage r) (sip_id sip) of
        Some old \<Rightarrow>
          (let r1 = removeFromIndexes old r;
               r2 = r1\<lparr>sip_storage := AList.update (sip_id sip) sip (sip_storage r1)\<rparr>
           in (True, addToIndexes sip r2))
      | None \<Rightarrow> (False, r))"

definition getDueSIPs :: "Date \<Rightarrow> InMemorySIPRepository \<Rightarrow> SIP list" where
  "getDueSIPs asOfDate r =
     map snd (filter (\<lambda>(k, sip). sip_state sip = ACTIVE \<and> sip_nextExecutionDate sip \<le> asOfDate)
                (sip_storage r))"

section \<open>SIP service (services/SIPServiceImpl.h)\<close>

text \<open>
  A service method that returns \<open>void\<close> and may throw returns the exception, if any,
  together with the repository as the method left it. Nothing is rolled back when an
  exception is thrown, so the repository returned next to an exception is the one at the
  \<open>throw\<close>.
\<close>

definition validateSIPExists :: "string \<Rightarrow> InMemorySIPRepository \<Rightarrow> error + SIP" where
  "validateSIPExists sipId r =
     (case SIPRepo_getById sipId r of
        None \<Rightarrow> Inl (SIPNotFoundException sipId)
      | Some sip \<Rightarrow> Inr sip)"

definition pauseSIP :: "string \<Rightarrow> InMemorySIPRepository \<Rightarrow> error option \<times> InMemorySIPRepository" where
  "pauseSIP sipId r =
     (case validateSIPExists sipId r of
        Inl e \<Rightarrow> (Some e, r)
      | Inr sip \<Rightarrow>
          if sip_state sip = PAUSED
          then (Some (InvalidStateException sipId (toString_SIPState (sip_state sip)) ''pause''), r)
          else if sip_state sip = STOPPED
          then (Some (InvalidStateException sipId (toString_SIPState (sip_state sip)) ''pause''), r)
          else (None, snd (SIPRepo_update (sip\<lparr>sip_state := PAUSED\<rparr>) r)))"

definition unpauseSIP :: "string \<Rightarrow> InMemorySIPRepository \<Rightarrow> error option \<times> InMemorySIPRepository" where
  "unpauseSIP sipId r =
     (case validateSIPExists sipId r of
        Inl e \<Rightarrow> (Some e, r)
      | Inr sip \<Rightarrow>
          if sip_state sip = ACTIVE
          then (Some (InvalidStateException sipId (toString_SIPState (sip_state sip)) ''unpause''), r)
          else if sip_state sip = STOPPED
          then (Some (InvalidStateException sipId (toString_SIPState (sip_state sip)) ''unpause''), r)
          else (None, snd (SIPRepo_update (sip\<lparr>sip_state := ACTIVE\<rparr>) r)))"

definition stopSIP :: "string \<Rightarrow> InMemorySIPRepository \<Rightarrow> error option \<times> InMemorySIPRepository" where
  "stopSIP sipId r =
     (case validateSIPExists sipId r of
        Inl e \<Rightarrow> (Some e, r)
      | Inr sip \<Rightarrow>
          if sip_state sip = STOPPED
          then (Some (InvalidStateException sipId (toString_SIPState (sip_state sip)) ''stop''), r)
          else (None, snd (SIPRepo_update (sip\<lparr>sip_state := STOPPED\<rparr>) r)))"

definition modifyStepUp ::
  "string \<Rightarrow> real \<Rightarrow> InMemorySIPRepository \<Rightarrow> error option \<times> InMemorySIPRepository" where
  "modifyStepUp sipId newStepUpPercentage r =
     (case validateSIPExists sipId r of
        Inl e \<Rightarrow> (Some e, r)
      | Inr sip \<Rightarrow>
          if sip_state sip = STOPPED
          then (Some (InvalidStateException sipId (toString_SIPState (sip_state sip)) ''modify step-up''), r)
          else if newStepUpPercentage < 0
          then (Some (ValidationException ''Step-up percentage cannot be negative''), r)
          else (None, snd (SIPRepo_update (sip\<lparr>sip_stepUpPercentage := newStepUpPercentage\<rparr>) r)))"

definition onPaymentSuccess :: "string \<Rightarrow> InMemorySIPRepository \<Rightarrow> error option \<times> InMemorySIPRepository" where
  "onPaymentSuccess sipId r =
     (case validateSIPExists sipId r of
        Inl e \<Rightarrow> (Some e, r)
      | Inr sip \<Rightarrow> (None, snd (SIPRepo_update (incrementInstallmentCount sip) r)))"

text \<open>
  The two methods that reach \<open>localtime\<close> and \<open>mktime\<close> take the time zone of the
  process as their first argument.
\<close>

definition calculateNextExecutionDate :: "time_zone \<Rightarrow> Date \<Rightarrow> SIPFrequency \<Rightarrow> Date" where
  "calculateNextExecutionDate zone currentDate frequency =
     (case frequency of
        WEEKLY \<Rightarrow> addWeeks currentDate 1
      | MONTHLY \<Rightarrow> addMonths zone currentDate 1
      | QUARTERLY \<Rightarrow> addQuarters zone currentDate 1)"

definition updateNextExecutionDate ::
  "time_zone \<Rightarrow> string \<Rightarrow> InMemorySIPRepository \<Rightarrow> error option \<times> InMemorySIPRepository" where
  "updateNextExecutionDate zone sipId r =
     (case validateSIPExists sipId r of
        Inl e \<Rightarrow> (Some e, r)
      | Inr sip \<Rightarrow>
          (let nextDate = calculateNextExecutionDate zone (sip_nextExecutionDate sip)
                            (sip_frequency sip)
           in (None, snd (SIPRepo_update (sip\<lparr>sip_nextExecutionDate := nextDate\<rparr>) r))))"

text \<open>
  \<open>std::pow\<close> with an \<open>int\<close> exponent; the three copies of
  \<open>calculateSteppedUpAmount\<close> call it with an exponent of at least one.
\<close>

definition std_pow :: "real \<Rightarrow> int \<Rightarrow> real" where
  "std_pow x k = (if 0 \<le> k then x ^ nat k else 1 / x ^ nat (- k))"

definition SIPServiceImpl_calculateSteppedUpAmount :: "real \<Rightarrow> real \<Rightarrow> int \<Rightarrow> real" where
  "SIPServiceImpl_calculateSteppedUpAmount baseAmount stepUpPercentage installmentNumber =
     (if stepUpPercentage \<le> 0 \<or> installmentNumber \<le> 1 then baseAmount
      else let factor = std_pow (1 + stepUpPercentage / 100) (installmentNumber - 1)
           in baseAmount * factor)"

section \<open>Scheduler and reconciler (scheduler/SIPScheduler.h)\<close>

definition SIPScheduler_calculateSteppedUpAmount :: "real \<Rightarrow> real \<Rightarrow> int \<Rightarrow> real" where
  "SIPScheduler_calculateSteppedUpAmount baseAmount stepUpPercentage installmentNumber =
     (if stepUpPercentage \<le> 0 \<or> installmentNumber \<le> 1 then baseAmount
      else let factor = std_pow (1 + stepUpPercentage / 100) (installmentNumber - 1)
           in baseAmount * factor)"

text \<open>
  The state the scheduler works on: the two repositories it shares with the services, the
  identifier counter, the lines written to \<open>std::cerr\<close>, and the time zone of the
  process, which nothing in the program changes.
\<close>

record system =
  sipRepository :: InMemorySIPRepository
  transactionRepository :: InMemoryTransactionRepository
  counter :: nat
  cerr :: "string list"
  tz :: time_zone

text \<open>
  The two collaborators behind interfaces. \<open>getCurrentNAV\<close> returns a price or throws.
  \<open>initiatePayment\<close> gives the outcomes the payment service reports to the callback
  before it returns: none when completion is deferred, one in the auto-complete mode of
  \<open>MockPaymentService\<close>, several when an outcome is delivered again.
\<close>

record collaborators =
  getCurrentNAV :: "string \<Rightarrow> error + real"
  initiatePayment :: "string \<Rightarrow> real \<Rightarrow> PaymentStatus list"

definition MockMarketPriceService_getCurrentNAV :: "(string \<rightharpoonup> real) \<Rightarrow> string \<Rightarrow> error + real" where
  "MockMarketPriceService_getCurrentNAV navData fundId =
     (case navData fundId of
        None \<Rightarrow> Inl (FundNotFoundException fundId)
      | Some baseNav \<Rightarrow> Inr baseNav)"

definition isDue :: "SIP \<Rightarrow> Date \<Rightarrow> bool" where
  "isDue sip asOfDate =
     (if sip_state sip \<noteq> ACTIVE then False
      else isOnOrBefore (sip_nextExecutionDate sip) asOfDate)"

definition handlePaymentCallback ::
  "string \<Rightarrow> string \<Rightarrow> PaymentStatus \<Rightarrow> system \<Rightarrow> error option \<times> system" where
  "handlePaymentCallback transactionId sipId status sys =
     (case TxnRepo_getById transactionId (transactionRepository sys) of
        None \<Rightarrow> (None, sys)
      | Some txn \<Rightarrow>
          if txn_callbackProcessed txn then (None, sys)
          else
            (let txn' = txn\<lparr>txn_status := status, txn_callbackProcessed := True\<rparr>;
                 sys1 = sys\<lparr>transactionRepository :=
                              snd (TxnRepo_update txn' (transactionRepository sys))\<rparr>
             in if status = SUCCESS
                then (case onPaymentSuccess sipId (sipRepository sys1) of
                        (Some e, r) \<Rightarrow> (Some e, sys1\<lparr>sipRepository := r\<rparr>)
                      | (None, r) \<Rightarrow>
                          (case updateNextExecutionDate (tz sys) sipId r of
                             (res, r') \<Rightarrow> (res, sys1\<lparr>sipRepository := r'\<rparr>)))
                else (None, sys1)))"

text \<open>
  The callback closure of \<open>executeSIP\<close>, run once for each outcome the payment service
  reports; an exception leaving the callback leaves \<open>initiatePayment\<close> as well.
\<close>

fun deliver :: "PaymentStatus list \<Rightarrow> string \<Rightarrow> string \<Rightarrow> system \<Rightarrow> error option \<times> system" where
  "deliver [] transactionId sipId sys = (None, sys)"
| "deliver (status # rest) transactionId sipId sys =
     (case handlePaymentCallback transactionId sipId status sys of
        (Some e, sys') \<Rightarrow> (Some e, sys')
      | (None, sys') \<Rightarrow> deliver rest transactionId sipId sys')"

definition executeSIP :: "collaborators \<Rightarrow> SIP \<Rightarrow> Date \<Rightarrow> system \<Rightarrow> error option \<times> system" where
  "executeSIP env sip executionDate sys =
     (if sip_state sip \<noteq> ACTIVE then (None, sys)
      else
        (case getCurrentNAV env (sip_fundId sip) of
           Inl e \<Rightarrow> (Some e, sys)
         | Inr nav \<Rightarrow>
             (let amount = SIPScheduler_calculateSteppedUpAmount (sip_baseAmount sip)
                             (sip_stepUpPercentage sip) (sip_installmentCount sip + 1);
                  units = amount / nav;
                  (txnId, counter') = generateTransactionId (counter sys);
                  txn = (Transaction_new txnId (sip_id sip) amount nav executionDate INSTALLMENT)
                          \<lparr>txn_units := units, txn_status := PENDING\<rparr>;
                  sys1 = sys\<lparr>counter := counter',
                             transactionRepository := TxnRepo_add txn (transactionRepository sys)\<rparr>
              in deliver (initiatePayment env txnId amount) txnId (sip_id sip) sys1)))"

fun executeDueSIPs_loop ::
  "collaborators \<Rightarrow> SIP list \<Rightarrow> Date \<Rightarrow> int \<Rightarrow> system \<Rightarrow> int \<times> system" where
  "executeDueSIPs_loop env [] asOfDate processedCount sys = (processedCount, sys)"
| "executeDueSIPs_loop env (sip # rest) asOfDate processedCount sys =
     (case executeSIP env sip asOfDate sys of
        (None, sys') \<Rightarrow> executeDueSIPs_loop env rest asOfDate (processedCount + 1) sys'
      | (Some e, sys') \<Rightarrow>
          executeDueSIPs_loop env rest asOfDate processedCount
            (sys'\<lparr>cerr := cerr sys' @ [''Error executing SIP '' @ sip_id sip @ '': '' @ what e]\<rparr>))"

definition executeDueSIPs :: "collaborators \<Rightarrow> Date \<Rightarrow> system \<Rightarrow> int \<times> system" where
  "executeDueSIPs env asOfDate sys =
     (let dueSIPs = getDueSIPs asOfDate (sipRepository sys)
      in executeDueSIPs_loop env dueSIPs asOfDate 0 sys)"

section \<open>Portfolio valuation (services/PortfolioServiceImpl.h)\<close>

record SIPPortfolioItem =
  item_sip :: SIP
  fundName :: string
  totalInvested :: real
  totalUnits :: real
  currentValue :: real
  currentNav :: real
  gainLoss :: real
  gainLossPercentage :: real
  currentInstallmentAmount :: real
  nextInstallmentAmount :: real

definition PortfolioServiceImpl_calculateSteppedUpAmount :: "real \<Rightarrow> real \<Rightarrow> int \<Rightarrow> real" where
  "PortfolioServiceImpl_calculateSteppedUpAmount baseAmount stepUpPercentage installmentNumber =
     (if stepUpPercentage \<le> 0 \<or> installmentNumber \<le> 1 then baseAmount
      else let factor = std_pow (1 + stepUpPercentage / 100) (installmentNumber - 1)
           in baseAmount * factor)"

text \<open>
  \<open>buildPortfolioItem\<close> reads the fund repository only for the fund's name, so that
  repository is the map \<open>fundNames\<close>. The two running totals are the loop over the
  successful transactions, started at \<open>0.0\<close>.
\<close>

definition buildPortfolioItem ::
  "(string \<rightharpoonup> string) \<Rightarrow> (string \<Rightarrow> error + real) \<Rightarrow> InMemoryTransactionRepository \<Rightarrow> SIP
     \<Rightarrow> SIPPortfolioItem" where
  "buildPortfolioItem fundNames currentNAV txnRepo sip =
     (let name = (case fundNames (sip_fundId sip) of Some n \<Rightarrow> n | None \<Rightarrow> ''Unknown Fund'');
          nav = (case currentNAV (sip_fundId sip) of Inr v \<Rightarrow> v | Inl e \<Rightarrow> 0);
          transactions = TxnRepo_getSuccessfulBySipId (sip_id sip) txnRepo;
          invested = foldl (\<lambda>acc txn. acc + txn_amount txn) 0 transactions;
          units = foldl (\<lambda>acc txn. acc + txn_units txn) 0 transactions;
          val = units * nav;
          gain = val - invested;
          pct = (if invested > 0 then (gain / invested) * 100 else 0);
          nextInstallment = sip_installmentCount sip + 1
      in \<lparr> item_sip = sip, fundName = name, totalInvested = invested, totalUnits = units,
           currentValue = val, currentNav = nav, gainLoss = gain, gainLossPercentage = pct,
           currentInstallmentAmount =
             PortfolioServiceImpl_calculateSteppedUpAmount (sip_baseAmount sip)
               (sip_stepUpPercentage sip) nextInstallment,
           nextInstallmentAmount =
             PortfolioServiceImpl_calculateSteppedUpAmount (sip_baseAmount sip)
               (sip_stepUpPercentage sip) (nextInstallment + 1) \<rparr>)"

section \<open>Repository invariants\<close>

text \<open>
  Every write of the two repositories files an entity under its own identifier
  (\<open>storage[x.getId()] = x\<close> in \<open>add\<close>, and \<open>update\<close> assigns to the entry found under
  \<open>x.getId()\<close>), so in every repository the program can build the key of an entry is the
  identifier of the entity stored there.
\<close>

definition txn_repo_ok :: "InMemoryTransactionRepository \<Rightarrow> bool" where
  "txn_repo_ok r \<longleftrightarrow> (\<forall>(k, txn) \<in> set (txn_storage r). txn_id txn = k)"

definition sip_repo_ok :: "InMemorySIPRepository \<Rightarrow> bool" where
  "sip_repo_ok r \<longleftrightarrow> (\<forall>(k, sip) \<in> set (sip_storage r). sip_id sip = k)"

lemma alist_update_keys_ok:
  assumes "\<forall>(k, v) \<in> set al. f v = k" "f v' = k'"
  shows "\<forall>(k, v) \<in> set (AList.update k' v' al). f v = k"
  using assms by (induction al) (auto split: if_splits)

lemma txn_repo_ok_empty: "txn_repo_ok \<lparr>txn_storage = [], sipIndex = Map.empty\<rparr>"
  by (simp add: txn_repo_ok_def)

lemma txn_repo_ok_add: "txn_repo_ok r \<Longrightarrow> txn_repo_ok (TxnRepo_add txn r)"
  unfolding txn_repo_ok_def TxnRepo_add_def
  using alist_update_keys_ok [of "txn_storage r" txn_id txn "txn_id txn"] by simp

lemma txn_repo_ok_update: "txn_repo_ok r \<Longrightarrow> txn_repo_ok (snd (TxnRepo_update txn r))"
  unfolding txn_repo_ok_def TxnRepo_update_def
  using alist_update_keys_ok [of "txn_storage r" txn_id txn "txn_id txn"]
  by (simp split: option.splits)

lemma sip_repo_ok_empty:
  "sip_repo_ok \<lparr>sip_storage = [], userIndex = Map.empty, fundIndex = Map.empty\<rparr>"
  by (simp add: sip_repo_ok_def)

lemma sip_repo_ok_add: "sip_repo_ok r \<Longrightarrow> sip_repo_ok (SIPRepo_add sip r)"
  unfolding sip_repo_ok_def SIPRepo_add_def addToIndexes_def
  using alist_update_keys_ok [of "sip_storage r" sip_id sip "sip_id sip"] by simp

lemma sip_repo_ok_update: "sip_repo_ok r \<Longrightarrow> sip_repo_ok (snd (SIPRepo_update sip r))"
  unfolding sip_repo_ok_def SIPRepo_update_def addToIndexes_def removeFromIndexes_def Let_def
  using alist_update_keys_ok [of "sip_storage r" sip_id sip "sip_id sip"]
  by (simp split: option.splits)

lemma txn_key_is_id:
  "txn_repo_ok r \<Longrightarrow> TxnRepo_getById k r = Some txn \<Longrightarrow> txn_id txn = k"
  unfolding txn_repo_ok_def TxnRepo_getById_def by (auto dest: map_of_SomeD)

lemma sip_key_is_id:
  "sip_repo_ok r \<Longrightarrow> SIPRepo_getById k r = Some sip \<Longrightarrow> sip_id sip = k"
  unfolding sip_repo_ok_def SIPRepo_getById_def by (auto dest: map_of_SomeD)

section \<open>The reconciler\<close>

text \<open>What the reconciler writes for a transaction it has not settled yet.\<close>

definition settle :: "PaymentStatus \<Rightarrow> Transaction \<Rightarrow> Transaction" where
  "settle status txn = txn\<lparr>txn_status := status, txn_callbackProcessed := True\<rparr>"

definition store_txn :: "string \<Rightarrow> Transaction \<Rightarrow> system \<Rightarrow> system" where
  "store_txn k txn sys =
     sys\<lparr>transactionRepository :=
           (transactionRepository sys)
             \<lparr>txn_storage := AList.update k txn (txn_storage (transactionRepository sys))\<rparr>\<rparr>"

lemma TxnRepo_update_settle:
  assumes "txn_repo_ok r" "TxnRepo_getById k r = Some txn"
  shows "snd (TxnRepo_update (settle status txn) r)
           = r\<lparr>txn_storage := AList.update k (settle status txn) (txn_storage r)\<rparr>"
proof -
  have "txn_id txn = k" using assms by (rule txn_key_is_id)
  then show ?thesis
    using assms(2) by (simp add: TxnRepo_update_def TxnRepo_getById_def settle_def)
qed

lemma getById_store_txn:
  "TxnRepo_getById k' (transactionRepository (store_txn k txn sys))
     = (if k' = k then Some txn else TxnRepo_getById k' (transactionRepository sys))"
  by (simp add: store_txn_def TxnRepo_getById_def update_conv')

lemma handlePaymentCallback_absent:
  "TxnRepo_getById k (transactionRepository sys) = None \<Longrightarrow>
     handlePaymentCallback k sipId status sys = (None, sys)"
  by (simp add: handlePaymentCallback_def)

lemma handlePaymentCallback_processed:
  "TxnRepo_getById k (transactionRepository sys) = Some txn \<Longrightarrow> txn_callbackProcessed txn \<Longrightarrow>
     handlePaymentCallback k sipId status sys = (None, sys)"
  by (simp add: handlePaymentCallback_def)

lemma handlePaymentCallback_not_success:
  assumes "txn_repo_ok (transactionRepository sys)"
    "TxnRepo_getById k (transactionRepository sys) = Some txn" "\<not> txn_callbackProcessed txn"
    "status \<noteq> SUCCESS"
  shows "handlePaymentCallback k sipId status sys = (None, store_txn k (settle status txn) sys)"
  using assms TxnRepo_update_settle [OF assms(1,2), of status]
  by (simp add: handlePaymentCallback_def store_txn_def settle_def)

lemma handlePaymentCallback_success:
  assumes "txn_repo_ok (transactionRepository sys)"
    "TxnRepo_getById k (transactionRepository sys) = Some txn" "\<not> txn_callbackProcessed txn"
  shows "handlePaymentCallback k sipId SUCCESS sys =
           (case onPaymentSuccess sipId (sipRepository sys) of
              (Some e, r) \<Rightarrow> (Some e, (store_txn k (settle SUCCESS txn) sys)\<lparr>sipRepository := r\<rparr>)
            | (None, r) \<Rightarrow>
                (case updateNextExecutionDate (tz sys) sipId r of
                   (res, r') \<Rightarrow> (res, (store_txn k (settle SUCCESS txn) sys)\<lparr>sipRepository := r'\<rparr>)))"
  using assms TxnRepo_update_settle [OF assms(1,2), of SUCCESS]
  by (simp add: handlePaymentCallback_def store_txn_def settle_def Let_def
        split: prod.splits option.splits)

lemma handlePaymentCallback_txn_repo:
  assumes "txn_repo_ok (transactionRepository sys)"
    "TxnRepo_getById k (transactionRepository sys) = Some txn" "\<not> txn_callbackProcessed txn"
  shows "transactionRepository (snd (handlePaymentCallback k sipId status sys))
           = transactionRepository (store_txn k (settle status txn) sys)"
proof (cases "status = SUCCESS")
  case False
  then show ?thesis using handlePaymentCallback_not_success [OF assms] by simp
next
  case True
  show ?thesis
    unfolding True handlePaymentCallback_success [OF assms]
    by (simp add: store_txn_def split: prod.splits option.splits)
qed

lemma handlePaymentCallback_settled:
  assumes "txn_repo_ok (transactionRepository sys)"
    "TxnRepo_getById k (transactionRepository sys) = Some txn" "\<not> txn_callbackProcessed txn"
  shows "TxnRepo_getById k (transactionRepository (snd (handlePaymentCallback k sipId status sys)))
           = Some (settle status txn)"
  unfolding handlePaymentCallback_txn_repo [OF assms] by (simp add: getById_store_txn)

lemma handlePaymentCallback_again:
  assumes "txn_repo_ok (transactionRepository sys)"
  shows "handlePaymentCallback k sipId' status'
           (snd (handlePaymentCallback k sipId status sys))
         = (None, snd (handlePaymentCallback k sipId status sys))"
proof (cases "TxnRepo_getById k (transactionRepository sys)")
  case None
  then show ?thesis by (simp add: handlePaymentCallback_absent)
next
  case (Some txn)
  show ?thesis
  proof (cases "txn_callbackProcessed txn")
    case True
    then show ?thesis using Some by (simp add: handlePaymentCallback_processed)
  next
    case False
    have "txn_callbackProcessed (settle status txn)" by (simp add: settle_def)
    then show ?thesis
      using handlePaymentCallback_settled [OF assms Some False, of sipId status]
      by (rule handlePaymentCallback_processed [rotated])
  qed
qed

lemma handlePaymentCallback_keeps_ok:
  assumes "txn_repo_ok (transactionRepository sys)"
  shows "txn_repo_ok (transactionRepository (snd (handlePaymentCallback k sipId status sys)))"
proof (cases "TxnRepo_getById k (transactionRepository sys)")
  case None
  then show ?thesis using assms by (simp add: handlePaymentCallback_absent)
next
  case (Some txn)
  show ?thesis
  proof (cases "txn_callbackProcessed txn")
    case True
    then show ?thesis using assms Some by (simp add: handlePaymentCallback_processed)
  next
    case False
    have "txn_id (settle status txn) = k"
      using txn_key_is_id [OF assms Some] by (simp add: settle_def)
    then show ?thesis
      unfolding handlePaymentCallback_txn_repo [OF assms Some False]
      using assms alist_update_keys_ok [of "txn_storage (transactionRepository sys)" txn_id
          "settle status txn" k]
      by (simp add: txn_repo_ok_def store_txn_def)
  qed
qed

lemma handlePaymentCallback_other_txn:
  assumes "txn_repo_ok (transactionRepository sys)" "k' \<noteq> k"
  shows "TxnRepo_getById k (transactionRepository (snd (handlePaymentCallback k' sipId status sys)))
           = TxnRepo_getById k (transactionRepository sys)"
proof (cases "TxnRepo_getById k' (transactionRepository sys)")
  case None
  then show ?thesis by (simp add: handlePaymentCallback_absent)
next
  case (Some txn)
  show ?thesis
  proof (cases "txn_callbackProcessed txn")
    case True
    then show ?thesis using Some by (simp add: handlePaymentCallback_processed)
  next
    case False
    show ?thesis
      unfolding handlePaymentCallback_txn_repo [OF assms(1) Some False]
      using assms(2) by (simp add: getById_store_txn)
  qed
qed

text \<open>
  Any sequence of outcomes the payment service may deliver, each one the callback bound to
  a transaction identifier and a SIP identifier; an exception thrown by one delivery goes
  back to the payment service and the next delivery runs on the state it left.
\<close>

fun reconcile :: "(string \<times> string \<times> PaymentStatus) list \<Rightarrow> system \<Rightarrow> system" where
  "reconcile [] sys = sys"
| "reconcile ((transactionId, sipId, status) # events) sys =
     reconcile events (snd (handlePaymentCallback transactionId sipId status sys))"

lemma reconcile_keeps_settled:
  "txn_repo_ok (transactionRepository sys) \<Longrightarrow>
   TxnRepo_getById k (transactionRepository sys) = Some txn \<Longrightarrow> txn_callbackProcessed txn \<Longrightarrow>
     txn_repo_ok (transactionRepository (reconcile events sys))
     \<and> TxnRepo_getById k (transactionRepository (reconcile events sys)) = Some txn"
proof (induction events arbitrary: sys)
  case Nil
  then show ?case by simp
next
  case (Cons ev events)
  obtain k' sipId status where ev: "ev = (k', sipId, status)" by (cases ev) auto
  let ?s = "snd (handlePaymentCallback k' sipId status sys)"
  have ok: "txn_repo_ok (transactionRepository ?s)"
    using Cons.prems(1) by (rule handlePaymentCallback_keeps_ok)
  have same: "TxnRepo_getById k (transactionRepository ?s) = Some txn"
  proof (cases "k' = k")
    case True
    then show ?thesis
      using Cons.prems by (simp add: handlePaymentCallback_processed)
  next
    case False
    then show ?thesis
      using Cons.prems handlePaymentCallback_other_txn [of sys k' k] by simp
  qed
  show ?case
    using Cons.IH [OF ok same Cons.prems(3)] by (simp add: ev)
qed

subsection \<open>The SIP service on a stored SIP\<close>

definition put_sip :: "string \<Rightarrow> SIP \<Rightarrow> SIP \<Rightarrow> InMemorySIPRepository \<Rightarrow> InMemorySIPRepository" where
  "put_sip k old sip r =
     addToIndexes sip
       ((removeFromIndexes old r)\<lparr>sip_storage := AList.update k sip (sip_storage r)\<rparr>)"

lemma SIPRepo_update_found:
  assumes "sip_repo_ok r" "SIPRepo_getById k r = Some old" "sip_id sip = sip_id old"
  shows "SIPRepo_update sip r = (True, put_sip k old sip r)"
proof -
  have "sip_id old = k" using assms(1,2) by (rule sip_key_is_id)
  then show ?thesis
    using assms(2,3)
    by (simp add: SIPRepo_update_def SIPRepo_getById_def put_sip_def Let_def
          removeFromIndexes_def addToIndexes_def)
qed

lemma getById_put_sip:
  "SIPRepo_getById k' (put_sip k old sip r) = (if k' = k then Some sip else SIPRepo_getById k' r)"
  by (simp add: put_sip_def SIPRepo_getById_def addToIndexes_def removeFromIndexes_def update_conv')

lemma sip_repo_ok_put_sip:
  "sip_repo_ok r \<Longrightarrow> sip_id sip = k \<Longrightarrow> sip_repo_ok (put_sip k old sip r)"
  using alist_update_keys_ok [of "sip_storage r" sip_id sip k]
  by (simp add: sip_repo_ok_def put_sip_def addToIndexes_def removeFromIndexes_def)

lemma onPaymentSuccess_absent:
  "SIPRepo_getById k r = None \<Longrightarrow> onPaymentSuccess k r = (Some (SIPNotFoundException k), r)"
  by (simp add: onPaymentSuccess_def validateSIPExists_def)

lemma onPaymentSuccess_found:
  assumes "sip_repo_ok r" "SIPRepo_getById k r = Some sip"
  shows "onPaymentSuccess k r = (None, put_sip k sip (incrementInstallmentCount sip) r)"
  using assms SIPRepo_update_found [OF assms, of "incrementInstallmentCount sip"]
  by (simp add: onPaymentSuccess_def validateSIPExists_def incrementInstallmentCount_def)

lemma updateNextExecutionDate_found:
  assumes "sip_repo_ok r" "SIPRepo_getById k r = Some sip"
  shows "updateNextExecutionDate zone k r =
           (None, put_sip k sip
                    (sip\<lparr>sip_nextExecutionDate :=
                           calculateNextExecutionDate zone (sip_nextExecutionDate sip)
                             (sip_frequency sip)\<rparr>) r)"
  using assms
    SIPRepo_update_found [OF assms, of "sip\<lparr>sip_nextExecutionDate :=
       calculateNextExecutionDate zone (sip_nextExecutionDate sip) (sip_frequency sip)\<rparr>"]
  by (simp add: updateNextExecutionDate_def validateSIPExists_def Let_def)

text \<open>A successful outcome for an unsettled transaction of a stored SIP.\<close>

definition advanced :: "time_zone \<Rightarrow> SIP \<Rightarrow> SIP" where
  "advanced zone sip =
     sip\<lparr>sip_installmentCount := sip_installmentCount sip + 1,
         sip_nextExecutionDate :=
           calculateNextExecutionDate zone (sip_nextExecutionDate sip) (sip_frequency sip)\<rparr>"

lemma handlePaymentCallback_success_found:
  assumes "txn_repo_ok (transactionRepository sys)"
    "TxnRepo_getById k (transactionRepository sys) = Some txn" "\<not> txn_callbackProcessed txn"
    "sip_repo_ok (sipRepository sys)" "SIPRepo_getById sipId (sipRepository sys) = Some sip"
  shows "fst (handlePaymentCallback k sipId SUCCESS sys) = None"
    and "SIPRepo_getById sipId (sipRepository (snd (handlePaymentCallback k sipId SUCCESS sys)))
           = Some (advanced (tz sys) sip)"
    and "sip_repo_ok (sipRepository (snd (handlePaymentCallback k sipId SUCCESS sys)))"
    and "k' \<noteq> sipId \<Longrightarrow>
           SIPRepo_getById k' (sipRepository (snd (handlePaymentCallback k sipId SUCCESS sys)))
             = SIPRepo_getById k' (sipRepository sys)"
proof -
  let ?sip1 = "incrementInstallmentCount sip"
  let ?r1 = "put_sip sipId sip ?sip1 (sipRepository sys)"
  have id1: "sip_id ?sip1 = sipId"
    using sip_key_is_id [OF assms(4,5)] by (simp add: incrementInstallmentCount_def)
  have ok1: "sip_repo_ok ?r1" using assms(4) id1 by (rule sip_repo_ok_put_sip)
  have get1: "SIPRepo_getById sipId ?r1 = Some ?sip1" by (simp add: getById_put_sip)
  let ?sip2 = "?sip1\<lparr>sip_nextExecutionDate :=
       calculateNextExecutionDate (tz sys) (sip_nextExecutionDate ?sip1) (sip_frequency ?sip1)\<rparr>"
  let ?r2 = "put_sip sipId ?sip1 ?sip2 ?r1"
  have run: "handlePaymentCallback k sipId SUCCESS sys
               = (None, (store_txn k (settle SUCCESS txn) sys)\<lparr>sipRepository := ?r2\<rparr>)"
    unfolding handlePaymentCallback_success [OF assms(1-3)]
      onPaymentSuccess_found [OF assms(4,5)]
    by (simp add: updateNextExecutionDate_found [OF ok1 get1] store_txn_def)
  have sip2: "?sip2 = advanced (tz sys) sip"
    by (simp add: advanced_def incrementInstallmentCount_def)
  show "fst (handlePaymentCallback k sipId SUCCESS sys) = None" by (simp add: run)
  show "SIPRepo_getById sipId (sipRepository (snd (handlePaymentCallback k sipId SUCCESS sys)))
           = Some (advanced (tz sys) sip)"
    unfolding run sip2 [symmetric] by (simp add: getById_put_sip)
  show "sip_repo_ok (sipRepository (snd (handlePaymentCallback k sipId SUCCESS sys)))"
    unfolding run using sip_repo_ok_put_sip [OF ok1, of ?sip2 sipId ?sip1] id1 by simp
  show "k' \<noteq> sipId \<Longrightarrow>
           SIPRepo_getById k' (sipRepository (snd (handlePaymentCallback k sipId SUCCESS sys)))
             = SIPRepo_getById k' (sipRepository sys)"
    unfolding run by (simp add: getById_put_sip)
qed

subsection \<open>The due list\<close>

lemma getDueSIPs_isDue:
  "getDueSIPs asOfDate r = filter (\<lambda>sip. isDue sip asOfDate) (map snd (sip_storage r))"
proof -
  have e: "(\<lambda>(k, sip). sip_state sip = ACTIVE \<and> sip_nextExecutionDate sip \<le> asOfDate)
          = (\<lambda>x. isDue (snd x) asOfDate)"
    by (auto simp: isDue_def isOnOrBefore_def)
  show ?thesis
    unfolding getDueSIPs_def e by (simp add: filter_map comp_def)
qed

lemma stored_due_is_listed:
  assumes "SIPRepo_getById k r = Some sip" "isDue sip asOfDate"
  shows "sip \<in> set (getDueSIPs asOfDate r)"
proof -
  have "(k, sip) \<in> set (sip_storage r)"
    using assms(1) by (auto simp: SIPRepo_getById_def dest: map_of_SomeD)
  then have "sip \<in> snd ` set (sip_storage r)" by force
  then show ?thesis using assms(2) by (simp add: getDueSIPs_isDue)
qed

section \<open>Example data\<close>

text \<open>
  A monthly SIP of 1000 with a 10 percent step-up, due on 31 January 2024 (midnight UTC),
  and the pending transaction of its first installment at a price of 50, in a process
  whose time zone is UTC.
\<close>

definition utc :: time_zone where
  "utc = \<lparr> std_offset = 0, dst_offset = 0, in_dst = (\<lambda>t. False) \<rparr>"

definition jan31_2024 :: Date where
  "jan31_2024 = 1706659200 * ticks_per_second"

definition sip1 :: SIP where
  "sip1 = \<lparr> sip_id = ''SIP_000001'', sip_userId = ''USER_000001'', sip_fundId = ''FUND_000004'',
            sip_baseAmount = 1000, sip_frequency = MONTHLY, sip_state = ACTIVE,
            sip_startDate = jan31_2024, sip_nextExecutionDate = jan31_2024,
            sip_installmentCount = 0, sip_stepUpPercentage = 10 \<rparr>"

definition txn1 :: Transaction where
  "txn1 = \<lparr> txn_id = ''TXN_000002'', txn_sipId = ''SIP_000001'', txn_amount = 1000,
            txn_units = 20, txn_nav = 50, txn_status = PENDING, txn_date = jan31_2024,
            txn_type = INSTALLMENT, txn_callbackProcessed = False \<rparr>"

definition sipRepo1 :: InMemorySIPRepository where
  "sipRepo1 = \<lparr> sip_storage = [(''SIP_000001'', sip1)],
                userIndex = [''USER_000001'' \<mapsto> [''SIP_000001'']],
                fundIndex = [''FUND_000004'' \<mapsto> [''SIP_000001'']] \<rparr>"

definition txnRepo1 :: InMemoryTransactionRepository where
  "txnRepo1 = \<lparr> txn_storage = [(''TXN_000002'', txn1)],
                sipIndex = [''SIP_000001'' \<mapsto> [''TXN_000002'']] \<rparr>"

definition system1 :: system where
  "system1 = \<lparr> sipRepository = sipRepo1, transactionRepository = txnRepo1, counter = 3,
                cerr = [], tz = utc \<rparr>"

lemma system1_facts:
  "txn_repo_ok (transactionRepository system1)"
  "sip_repo_ok (sipRepository system1)"
  "TxnRepo_getById ''TXN_000002'' (transactionRepository system1) = Some txn1"
  "\<not> txn_callbackProcessed txn1"
  "SIPRepo_getById ''SIP_000001'' (sipRepository system1) = Some sip1"
  "SIPRepo_getById ''SIP_000009'' (sipRepository system1) = None"
  by (simp_all add: system1_def txnRepo1_def sipRepo1_def txn_repo_ok_def sip_repo_ok_def
        TxnRepo_getById_def SIPRepo_getById_def txn1_def sip1_def)

section \<open>Claims about the reconciler\<close>

text \<open>
  Claim C3. For a transaction stored in the ledger whose callback has not been applied, a
  FAILURE outcome raises nothing and changes one thing only: the entry of that
  transaction, which becomes the same transaction with status FAILURE and the
  "callback applied" flag set. Every other transaction, the index of the ledger, the
  identifier counter and the whole SIP repository are as before; so the SIP looked up
  under any identifier is the same record (same installment count, same next execution
  date), the list of due SIPs on any date is the same, a SIP that was due is in the list
  of due SIPs taken after the callback, and the installment amount the scheduler computes
  from that record is the same.
\<close>

theorem failure_callback_frame:
  assumes "txn_repo_ok (transactionRepository sys)"
    and "TxnRepo_getById k (transactionRepository sys) = Some txn"
    and "\<not> txn_callbackProcessed txn"
  shows "fst (handlePaymentCallback k sipId FAILURE sys) = None
    \<and> snd (handlePaymentCallback k sipId FAILURE sys)
        = sys\<lparr>transactionRepository :=
               (transactionRepository sys)
                 \<lparr>txn_storage :=
                    AList.update k (txn\<lparr>txn_status := FAILURE, txn_callbackProcessed := True\<rparr>)
                      (txn_storage (transactionRepository sys))\<rparr>\<rparr>
    \<and> TxnRepo_getById k (transactionRepository (snd (handlePaymentCallback k sipId FAILURE sys)))
        = Some (txn\<lparr>txn_status := FAILURE, txn_callbackProcessed := True\<rparr>)
    \<and> (\<forall>k'. k' \<noteq> k \<longrightarrow>
          TxnRepo_getById k' (transactionRepository (snd (handlePaymentCallback k sipId FAILURE sys)))
            = TxnRepo_getById k' (transactionRepository sys))
    \<and> sipRepository (snd (handlePaymentCallback k sipId FAILURE sys)) = sipRepository sys
    \<and> (\<forall>sip. SIPRepo_getById sipId (sipRepository sys) = Some sip \<longrightarrow>
          SIPRepo_getById sipId (sipRepository (snd (handlePaymentCallback k sipId FAILURE sys)))
            = Some sip)
    \<and> (\<forall>asOfDate.
          getDueSIPs asOfDate (sipRepository (snd (handlePaymentCallback k sipId FAILURE sys)))
            = getDueSIPs asOfDate (sipRepository sys))
    \<and> (\<forall>sip asOfDate.
          SIPRepo_getById sipId (sipRepository sys) = Some sip \<and> isDue sip asOfDate \<longrightarrow>
          sip \<in> set (getDueSIPs asOfDate
                         (sipRepository (snd (handlePaymentCallback k sipId FAILURE sys)))))"
proof -
  have run: "handlePaymentCallback k sipId FAILURE sys = (None, store_txn k (settle FAILURE txn) sys)"
    using assms by (intro handlePaymentCallback_not_success) simp_all
  have same: "sipRepository (store_txn k (settle FAILURE txn) sys) = sipRepository sys"
    by (simp add: store_txn_def)
  show ?thesis
    unfolding run using getById_store_txn [of _ k "settle FAILURE txn" sys]
    by (auto simp: same stored_due_is_listed) (simp_all add: store_txn_def settle_def)
qed

theorem failure_callback_frame_witness:
  "txn_repo_ok (transactionRepository system1)
   \<and> TxnRepo_getById ''TXN_000002'' (transactionRepository system1) = Some txn1
   \<and> \<not> txn_callbackProcessed txn1
   \<and> SIPRepo_getById ''SIP_000001'' (sipRepository system1) = Some sip1
   \<and> fst (handlePaymentCallback ''TXN_000002'' ''SIP_000001'' FAILURE system1) = None
   \<and> TxnRepo_getById ''TXN_000002''
        (transactionRepository (snd (handlePaymentCallback ''TXN_000002'' ''SIP_000001'' FAILURE system1)))
       = Some (txn1\<lparr>txn_status := FAILURE, txn_callbackProcessed := True\<rparr>)
   \<and> SIPRepo_getById ''SIP_000001''
        (sipRepository (snd (handlePaymentCallback ''TXN_000002'' ''SIP_000001'' FAILURE system1)))
       = Some sip1
   \<and> sipRepository (snd (handlePaymentCallback ''TXN_000002'' ''SIP_000001'' FAILURE system1))
       = sipRepository system1
   \<and> isDue sip1 jan31_2024
   \<and> sip1 \<in> set (getDueSIPs jan31_2024
                      (sipRepository
                         (snd (handlePaymentCallback ''TXN_000002'' ''SIP_000001'' FAILURE system1))))"
proof -
  have due: "isDue sip1 jan31_2024"
    by (simp add: isDue_def isOnOrBefore_def sip1_def)
  show ?thesis
    using system1_facts due
      failure_callback_frame [OF system1_facts(1) system1_facts(3) system1_facts(4),
        of "''SIP_000001''"]
    by blast
qed

text \<open>
  Claim C10. When a SUCCESS outcome arrives for a stored, not yet settled transaction and
  the SIP identifier bound to the callback is not in the SIP repository, the reconciler
  first stores the transaction with status SUCCESS and the "callback applied" flag set and
  then \<open>onPaymentSuccess\<close> throws \<open>SIPNotFoundException\<close> for that identifier. The
  state left behind keeps the updated transaction; the SIP repository is untouched, so no
  installment count was incremented and no schedule advanced.
\<close>

theorem success_callback_missing_sip:
  assumes "txn_repo_ok (transactionRepository sys)"
    and "TxnRepo_getById k (transactionRepository sys) = Some txn"
    and "\<not> txn_callbackProcessed txn"
    and "SIPRepo_getById sipId (sipRepository sys) = None"
  shows "fst (handlePaymentCallback k sipId SUCCESS sys) = Some (SIPNotFoundException sipId)
    \<and> snd (handlePaymentCallback k sipId SUCCESS sys)
        = sys\<lparr>transactionRepository :=
               (transactionRepository sys)
                 \<lparr>txn_storage :=
                    AList.update k (txn\<lparr>txn_status := SUCCESS, txn_callbackProcessed := True\<rparr>)
                      (txn_storage (transactionRepository sys))\<rparr>\<rparr>
    \<and> TxnRepo_getById k (transactionRepository (snd (handlePaymentCallback k sipId SUCCESS sys)))
        = Some (txn\<lparr>txn_status := SUCCESS, txn_callbackProcessed := True\<rparr>)
    \<and> sipRepository (snd (handlePaymentCallback k sipId SUCCESS sys)) = sipRepository sys"
proof -
  have run: "handlePaymentCallback k sipId SUCCESS sys
               = (Some (SIPNotFoundException sipId), store_txn k (settle SUCCESS txn) sys)"
    unfolding handlePaymentCallback_success [OF assms(1-3)] onPaymentSuccess_absent [OF assms(4)]
    by (simp add: store_txn_def)
  show ?thesis
    unfolding run using getById_store_txn [of k k "settle SUCCESS txn" sys]
    by (simp add: store_txn_def settle_def)
qed

theorem success_callback_missing_sip_witness:
  "txn_repo_ok (transactionRepository system1)
   \<and> TxnRepo_getById ''TXN_000002'' (transactionRepository system1) = Some txn1
   \<and> \<not> txn_callbackProcessed txn1
   \<and> SIPRepo_getById ''SIP_000009'' (sipRepository system1) = None
   \<and> fst (handlePaymentCallback ''TXN_000002'' ''SIP_000009'' SUCCESS system1)
       = Some (SIPNotFoundException ''SIP_000009'')
   \<and> TxnRepo_getById ''TXN_000002''
        (transactionRepository (snd (handlePaymentCallback ''TXN_000002'' ''SIP_000009'' SUCCESS system1)))
       = Some (txn1\<lparr>txn_status := SUCCESS, txn_callbackProcessed := True\<rparr>)
   \<and> sipRepository (snd (handlePaymentCallback ''TXN_000002'' ''SIP_000009'' SUCCESS system1))
       = sipRepository system1"
  using system1_facts
    success_callback_missing_sip [OF system1_facts(1) system1_facts(3) system1_facts(4) system1_facts(6)]
  by blast

text \<open>
  Claim C1. A call of the reconciler for a transaction whose "callback applied" flag is
  set raises nothing and returns the state it was given. Consequently the state after
  delivering an outcome twice is the state after delivering it once (the whole state:
  both repositories, the counter and the error stream). When the outcome is SUCCESS, the
  transaction was not settled and the SIP is stored, the SIP found after the two
  deliveries has its installment count raised by exactly one and its next execution date
  advanced exactly once.
\<close>

theorem callback_idempotent:
  "(\<forall>txn. TxnRepo_getById k (transactionRepository sys) = Some txn \<and> txn_callbackProcessed txn
            \<longrightarrow> handlePaymentCallback k sipId status sys = (None, sys))
   \<and> (txn_repo_ok (transactionRepository sys) \<longrightarrow>
        snd (handlePaymentCallback k sipId status (snd (handlePaymentCallback k sipId status sys)))
          = snd (handlePaymentCallback k sipId status sys))
   \<and> (\<forall>txn sip.
          txn_repo_ok (transactionRepository sys)
          \<and> TxnRepo_getById k (transactionRepository sys) = Some txn \<and> \<not> txn_callbackProcessed txn
          \<and> sip_repo_ok (sipRepository sys) \<and> SIPRepo_getById sipId (sipRepository sys) = Some sip
          \<and> status = SUCCESS
          \<longrightarrow> SIPRepo_getById sipId
                (sipRepository
                  (snd (handlePaymentCallback k sipId status
                          (snd (handlePaymentCallback k sipId status sys)))))
                = Some (sip\<lparr>sip_installmentCount := sip_installmentCount sip + 1,
                             sip_nextExecutionDate :=
                               calculateNextExecutionDate (tz sys) (sip_nextExecutionDate sip)
                                 (sip_frequency sip)\<rparr>))"
proof (intro conjI allI impI)
  fix txn
  assume "TxnRepo_getById k (transactionRepository sys) = Some txn \<and> txn_callbackProcessed txn"
  then show "handlePaymentCallback k sipId status sys = (None, sys)"
    by (simp add: handlePaymentCallback_processed)
next
  assume "txn_repo_ok (transactionRepository sys)"
  then show "snd (handlePaymentCallback k sipId status (snd (handlePaymentCallback k sipId status sys)))
          = snd (handlePaymentCallback k sipId status sys)"
    by (simp add: handlePaymentCallback_again)
next
  fix txn sip
  assume a: "txn_repo_ok (transactionRepository sys)
          \<and> TxnRepo_getById k (transactionRepository sys) = Some txn \<and> \<not> txn_callbackProcessed txn
          \<and> sip_repo_ok (sipRepository sys) \<and> SIPRepo_getById sipId (sipRepository sys) = Some sip
          \<and> status = SUCCESS"
  from a have ok: "txn_repo_ok (transactionRepository sys)"
    and found: "TxnRepo_getById k (transactionRepository sys) = Some txn"
    and fresh: "\<not> txn_callbackProcessed txn"
    and sok: "sip_repo_ok (sipRepository sys)"
    and stored: "SIPRepo_getById sipId (sipRepository sys) = Some sip"
    by simp_all
  have "SIPRepo_getById sipId (sipRepository (snd (handlePaymentCallback k sipId SUCCESS sys)))
          = Some (advanced (tz sys) sip)"
    using ok found fresh sok stored by (rule handlePaymentCallback_success_found(2))
  then show "SIPRepo_getById sipId
                (sipRepository
                  (snd (handlePaymentCallback k sipId status
                          (snd (handlePaymentCallback k sipId status sys)))))
                = Some (sip\<lparr>sip_installmentCount := sip_installmentCount sip + 1,
                             sip_nextExecutionDate :=
                               calculateNextExecutionDate (tz sys) (sip_nextExecutionDate sip)
                                 (sip_frequency sip)\<rparr>)"
    using a by (simp add: handlePaymentCallback_again [OF ok] advanced_def)
qed

text \<open>The example ledger after its transaction has been settled as SUCCESS.\<close>

definition txn1_settled :: Transaction where
  "txn1_settled = txn1\<lparr>txn_status := SUCCESS, txn_callbackProcessed := True\<rparr>"

definition system1_settled :: system where
  "system1_settled =
     system1\<lparr>transactionRepository := txnRepo1\<lparr>txn_storage := [(''TXN_000002'', txn1_settled)]\<rparr>\<rparr>"

lemma system1_settled_facts:
  "txn_repo_ok (transactionRepository system1_settled)"
  "TxnRepo_getById ''TXN_000002'' (transactionRepository system1_settled) = Some txn1_settled"
  "txn_callbackProcessed txn1_settled"
  by (simp_all add: system1_settled_def system1_def txnRepo1_def txn_repo_ok_def
        TxnRepo_getById_def txn1_settled_def txn1_def)

theorem callback_idempotent_witness:
  "txn_repo_ok (transactionRepository system1_settled)
   \<and> TxnRepo_getById ''TXN_000002'' (transactionRepository system1_settled) = Some txn1_settled
   \<and> txn_callbackProcessed txn1_settled
   \<and> handlePaymentCallback ''TXN_000002'' ''SIP_000001'' SUCCESS system1_settled
       = (None, system1_settled)
   \<and> txn_repo_ok (transactionRepository system1)
   \<and> TxnRepo_getById ''TXN_000002'' (transactionRepository system1) = Some txn1
   \<and> \<not> txn_callbackProcessed txn1
   \<and> sip_repo_ok (sipRepository system1)
   \<and> SIPRepo_getById ''SIP_000001'' (sipRepository system1) = Some sip1
   \<and> snd (handlePaymentCallback ''TXN_000002'' ''SIP_000001'' SUCCESS
            (snd (handlePaymentCallback ''TXN_000002'' ''SIP_000001'' SUCCESS system1)))
       = snd (handlePaymentCallback ''TXN_000002'' ''SIP_000001'' SUCCESS system1)
   \<and> SIPRepo_getById ''SIP_000001''
        (sipRepository
          (snd (handlePaymentCallback ''TXN_000002'' ''SIP_000001'' SUCCESS
                  (snd (handlePaymentCallback ''TXN_000002'' ''SIP_000001'' SUCCESS system1)))))
       = Some (sip1\<lparr>sip_installmentCount := sip_installmentCount sip1 + 1,
                    sip_nextExecutionDate :=
                      calculateNextExecutionDate (tz system1) (sip_nextExecutionDate sip1)
                        (sip_frequency sip1)\<rparr>)
   \<and> sip_installmentCount sip1 + 1 = 1"
proof -
  have c: "sip_installmentCount sip1 + 1 = 1" by (simp add: sip1_def)
  show ?thesis
    using system1_facts system1_settled_facts c
      callback_idempotent [of "''TXN_000002''" system1_settled "''SIP_000001''" SUCCESS]
      callback_idempotent [of "''TXN_000002''" system1 "''SIP_000001''" SUCCESS]
    by blast
qed

text \<open>
  Claim C9. Once the reconciler has settled a stored transaction with a first outcome,
  that outcome stays: after any further sequence of deliveries, for this or for other
  transactions and with any status, the transaction still carries the first status and
  the flag, and a call of the reconciler for it, with any status and any SIP identifier,
  raises nothing and returns the state unchanged. In particular a SUCCESS delivered after
  a FAILURE changes neither the transaction, which stays FAILURE, nor any SIP: neither
  installment count nor next execution date moves.
\<close>

theorem first_delivery_wins:
  assumes "txn_repo_ok (transactionRepository sys)"
    and "TxnRepo_getById k (transactionRepository sys) = Some txn"
    and "\<not> txn_callbackProcessed txn"
  shows "TxnRepo_getById k
           (transactionRepository
              (reconcile events (snd (handlePaymentCallback k sipId status sys))))
         = Some (txn\<lparr>txn_status := status, txn_callbackProcessed := True\<rparr>)
    \<and> handlePaymentCallback k sipId' status'
         (reconcile events (snd (handlePaymentCallback k sipId status sys)))
       = (None, reconcile events (snd (handlePaymentCallback k sipId status sys)))
    \<and> (status = FAILURE \<longrightarrow>
         sipRepository (snd (handlePaymentCallback k sipId' SUCCESS
                               (snd (handlePaymentCallback k sipId status sys))))
           = sipRepository sys)"
proof -
  let ?s1 = "snd (handlePaymentCallback k sipId status sys)"
  have ok1: "txn_repo_ok (transactionRepository ?s1)"
    using assms(1) by (rule handlePaymentCallback_keeps_ok)
  have get1: "TxnRepo_getById k (transactionRepository ?s1) = Some (settle status txn)"
    using assms by (rule handlePaymentCallback_settled)
  have flag1: "txn_callbackProcessed (settle status txn)" by (simp add: settle_def)
  note kept = reconcile_keeps_settled [OF ok1 get1 flag1, of events]
  have a: "TxnRepo_getById k (transactionRepository (reconcile events ?s1))
             = Some (txn\<lparr>txn_status := status, txn_callbackProcessed := True\<rparr>)"
    using kept by (simp add: settle_def)
  have b: "handlePaymentCallback k sipId' status' (reconcile events ?s1)
             = (None, reconcile events ?s1)"
    using kept flag1 by (intro handlePaymentCallback_processed) simp_all
  have c: "status = FAILURE \<longrightarrow>
             sipRepository (snd (handlePaymentCallback k sipId' SUCCESS ?s1)) = sipRepository sys"
  proof
    assume f: "status = FAILURE"
    have "handlePaymentCallback k sipId status sys = (None, store_txn k (settle status txn) sys)"
      using assms f by (intro handlePaymentCallback_not_success) simp_all
    then have "sipRepository ?s1 = sipRepository sys" by (simp add: store_txn_def)
    then show "sipRepository (snd (handlePaymentCallback k sipId' SUCCESS ?s1)) = sipRepository sys"
      by (simp add: handlePaymentCallback_again [OF assms(1)])
  qed
  show ?thesis using a b c by blast
qed

theorem first_delivery_wins_witness:
  "txn_repo_ok (transactionRepository system1)
   \<and> TxnRepo_getById ''TXN_000002'' (transactionRepository system1) = Some txn1
   \<and> \<not> txn_callbackProcessed txn1
   \<and> TxnRepo_getById ''TXN_000002''
        (transactionRepository
           (reconcile [(''TXN_000002'', ''SIP_000001'', SUCCESS)]
              (snd (handlePaymentCallback ''TXN_000002'' ''SIP_000001'' FAILURE system1))))
       = Some (txn1\<lparr>txn_status := FAILURE, txn_callbackProcessed := True\<rparr>)
   \<and> sipRepository (snd (handlePaymentCallback ''TXN_000002'' ''SIP_000001'' SUCCESS
                           (snd (handlePaymentCallback ''TXN_000002'' ''SIP_000001'' FAILURE system1))))
       = sipRepository system1"
  using system1_facts
    first_delivery_wins [OF system1_facts(1) system1_facts(3) system1_facts(4),
      of "[(''TXN_000002'', ''SIP_000001'', SUCCESS)]" "''SIP_000001''" FAILURE "''SIP_000001''" SUCCESS]
  by blast

section \<open>Claims about the lifecycle state machine\<close>

text \<open>
  Claim C5. For a SIP stored under \<open>sipId\<close>: \<open>pauseSIP\<close> returns normally exactly when
  the state is ACTIVE, \<open>unpauseSIP\<close> exactly when it is PAUSED, \<open>stopSIP\<close> exactly when
  it is ACTIVE or PAUSED, and \<open>modifyStepUp\<close> with a percentage that is not negative
  exactly when it is not STOPPED. Every illegal attempt throws \<open>InvalidStateException\<close>
  carrying the SIP identifier, the printed current state and the name of the operation,
  and returns the repository unchanged. (On a legal attempt, in a repository that files
  every SIP under its own identifier, the stored SIP takes the new state or percentage
  and nothing else in it changes.)
\<close>

theorem lifecycle_guards:
  assumes "SIPRepo_getById sipId r = Some sip"
  shows "(fst (pauseSIP sipId r) = None \<longleftrightarrow> sip_state sip = ACTIVE)
    \<and> (fst (unpauseSIP sipId r) = None \<longleftrightarrow> sip_state sip = PAUSED)
    \<and> (fst (stopSIP sipId r) = None \<longleftrightarrow> sip_state sip = ACTIVE \<or> sip_state sip = PAUSED)
    \<and> (0 \<le> p \<longrightarrow> (fst (modifyStepUp sipId p r) = None \<longleftrightarrow> sip_state sip \<noteq> STOPPED))
    \<and> (sip_state sip \<noteq> ACTIVE \<longrightarrow>
          pauseSIP sipId r
            = (Some (InvalidStateException sipId (toString_SIPState (sip_state sip)) ''pause''), r))
    \<and> (sip_state sip \<noteq> PAUSED \<longrightarrow>
          unpauseSIP sipId r
            = (Some (InvalidStateException sipId (toString_SIPState (sip_state sip)) ''unpause''), r))
    \<and> (sip_state sip = STOPPED \<longrightarrow>
          stopSIP sipId r
            = (Some (InvalidStateException sipId (toString_SIPState (sip_state sip)) ''stop''), r))
    \<and> (sip_state sip = STOPPED \<longrightarrow>
          modifyStepUp sipId p r
            = (Some (InvalidStateException sipId (toString_SIPState (sip_state sip))
                       ''modify step-up''), r))
    \<and> (sip_repo_ok r \<and> sip_state sip = ACTIVE \<longrightarrow>
          SIPRepo_getById sipId (snd (pauseSIP sipId r)) = Some (sip\<lparr>sip_state := PAUSED\<rparr>))
    \<and> (sip_repo_ok r \<and> sip_state sip = PAUSED \<longrightarrow>
          SIPRepo_getById sipId (snd (unpauseSIP sipId r)) = Some (sip\<lparr>sip_state := ACTIVE\<rparr>))
    \<and> (sip_repo_ok r \<and> sip_state sip \<noteq> STOPPED \<longrightarrow>
          SIPRepo_getById sipId (snd (stopSIP sipId r)) = Some (sip\<lparr>sip_state := STOPPED\<rparr>))
    \<and> (sip_repo_ok r \<and> sip_state sip \<noteq> STOPPED \<and> 0 \<le> p \<longrightarrow>
          SIPRepo_getById sipId (snd (modifyStepUp sipId p r))
            = Some (sip\<lparr>sip_stepUpPercentage := p\<rparr>))"
proof -
  have v: "validateSIPExists sipId r = Inr sip"
    using assms by (simp add: validateSIPExists_def)
  have upd: "sip_repo_ok r \<Longrightarrow> sip_id sip' = sip_id sip \<Longrightarrow>
      SIPRepo_getById sipId (snd (SIPRepo_update sip' r)) = Some sip'" for sip'
    using SIPRepo_update_found [OF _ assms, of sip'] by (simp add: getById_put_sip)
  have guards: "(fst (pauseSIP sipId r) = None \<longleftrightarrow> sip_state sip = ACTIVE)"
    "(fst (unpauseSIP sipId r) = None \<longleftrightarrow> sip_state sip = PAUSED)"
    "(fst (stopSIP sipId r) = None \<longleftrightarrow> sip_state sip = ACTIVE \<or> sip_state sip = PAUSED)"
    "0 \<le> p \<longrightarrow> (fst (modifyStepUp sipId p r) = None \<longleftrightarrow> sip_state sip \<noteq> STOPPED)"
    by (cases "sip_state sip"; simp add: pauseSIP_def unpauseSIP_def stopSIP_def modifyStepUp_def v)+
  have errors: "sip_state sip \<noteq> ACTIVE \<longrightarrow>
          pauseSIP sipId r
            = (Some (InvalidStateException sipId (toString_SIPState (sip_state sip)) ''pause''), r)"
    "sip_state sip \<noteq> PAUSED \<longrightarrow>
          unpauseSIP sipId r
            = (Some (InvalidStateException sipId (toString_SIPState (sip_state sip)) ''unpause''), r)"
    "sip_state sip = STOPPED \<longrightarrow>
          stopSIP sipId r
            = (Some (InvalidStateException sipId (toString_SIPState (sip_state sip)) ''stop''), r)"
    "sip_state sip = STOPPED \<longrightarrow>
          modifyStepUp sipId p r
            = (Some (InvalidStateException sipId (toString_SIPState (sip_state sip))
                       ''modify step-up''), r)"
    by (cases "sip_state sip"; simp add: pauseSIP_def unpauseSIP_def stopSIP_def modifyStepUp_def v)+
  have effects: "sip_repo_ok r \<and> sip_state sip = ACTIVE \<longrightarrow>
          SIPRepo_getById sipId (snd (pauseSIP sipId r)) = Some (sip\<lparr>sip_state := PAUSED\<rparr>)"
    "sip_repo_ok r \<and> sip_state sip = PAUSED \<longrightarrow>
          SIPRepo_getById sipId (snd (unpauseSIP sipId r)) = Some (sip\<lparr>sip_state := ACTIVE\<rparr>)"
    "sip_repo_ok r \<and> sip_state sip \<noteq> STOPPED \<longrightarrow>
          SIPRepo_getById sipId (snd (stopSIP sipId r)) = Some (sip\<lparr>sip_state := STOPPED\<rparr>)"
    "sip_repo_ok r \<and> sip_state sip \<noteq> STOPPED \<and> 0 \<le> p \<longrightarrow>
          SIPRepo_getById sipId (snd (modifyStepUp sipId p r))
            = Some (sip\<lparr>sip_stepUpPercentage := p\<rparr>)"
    by (cases "sip_state sip"; simp add: pauseSIP_def unpauseSIP_def stopSIP_def modifyStepUp_def v upd)+
  show ?thesis using guards errors effects by blast
qed

text \<open>The example SIP in each of the three states.\<close>

definition sipRepo_in :: "SIPState \<Rightarrow> InMemorySIPRepository" where
  "sipRepo_in st = sipRepo1\<lparr>sip_storage := [(''SIP_000001'', sip1\<lparr>sip_state := st\<rparr>)]\<rparr>"

lemma sipRepo_in_facts:
  "SIPRepo_getById ''SIP_000001'' (sipRepo_in st) = Some (sip1\<lparr>sip_state := st\<rparr>)"
  "sip_repo_ok (sipRepo_in st)"
  "sip_state (sip1\<lparr>sip_state := st\<rparr>) = st"
  by (simp_all add: sipRepo_in_def sipRepo1_def SIPRepo_getById_def sip_repo_ok_def sip1_def)

theorem lifecycle_guards_witness:
  "SIPRepo_getById ''SIP_000001'' (sipRepo_in ACTIVE) = Some (sip1\<lparr>sip_state := ACTIVE\<rparr>)
   \<and> fst (pauseSIP ''SIP_000001'' (sipRepo_in ACTIVE)) = None
   \<and> SIPRepo_getById ''SIP_000001'' (snd (pauseSIP ''SIP_000001'' (sipRepo_in ACTIVE)))
       = Some (sip1\<lparr>sip_state := PAUSED\<rparr>)
   \<and> unpauseSIP ''SIP_000001'' (sipRepo_in ACTIVE)
       = (Some (InvalidStateException ''SIP_000001'' ''ACTIVE'' ''unpause''), sipRepo_in ACTIVE)
   \<and> fst (modifyStepUp ''SIP_000001'' 12 (sipRepo_in ACTIVE)) = None
   \<and> SIPRepo_getById ''SIP_000001'' (sipRepo_in PAUSED) = Some (sip1\<lparr>sip_state := PAUSED\<rparr>)
   \<and> fst (stopSIP ''SIP_000001'' (sipRepo_in PAUSED)) = None
   \<and> fst (unpauseSIP ''SIP_000001'' (sipRepo_in PAUSED)) = None
   \<and> SIPRepo_getById ''SIP_000001'' (sipRepo_in STOPPED) = Some (sip1\<lparr>sip_state := STOPPED\<rparr>)
   \<and> pauseSIP ''SIP_000001'' (sipRepo_in STOPPED)
       = (Some (InvalidStateException ''SIP_000001'' ''STOPPED'' ''pause''), sipRepo_in STOPPED)
   \<and> unpauseSIP ''SIP_000001'' (sipRepo_in STOPPED)
       = (Some (InvalidStateException ''SIP_000001'' ''STOPPED'' ''unpause''), sipRepo_in STOPPED)
   \<and> stopSIP ''SIP_000001'' (sipRepo_in STOPPED)
       = (Some (InvalidStateException ''SIP_000001'' ''STOPPED'' ''stop''), sipRepo_in STOPPED)
   \<and> modifyStepUp ''SIP_000001'' 12 (sipRepo_in STOPPED)
       = (Some (InvalidStateException ''SIP_000001'' ''STOPPED'' ''modify step-up''),
          sipRepo_in STOPPED)"
  using sipRepo_in_facts(2)
    lifecycle_guards [OF sipRepo_in_facts(1) [of ACTIVE], of 12]
    lifecycle_guards [OF sipRepo_in_facts(1) [of PAUSED], of 12]
    lifecycle_guards [OF sipRepo_in_facts(1) [of STOPPED], of 12]
  by (simp add: sipRepo_in_facts)

section \<open>Claims about the installment amount\<close>

text \<open>
  Claim C2. The installment amount is the base amount when the step-up percentage is not
  positive or the installment number is at most one, and otherwise the base amount times
  \<open>(1 + stepUpPercentage / 100)\<close> to the power \<open>n - 1\<close>. The copy of the function in the
  scheduler, the copy in the SIP service and the copy in the valuation engine return the
  same value for every input, and the current installment amount the valuation engine
  projects for a SIP is the amount the scheduler computes when it executes that SIP.
  (Amounts are real numbers here, so equality is equality of values; the three bodies are
  the same expression.)
\<close>

theorem stepped_up_amount_formula:
  "SIPScheduler_calculateSteppedUpAmount baseAmount stepUpPercentage n
     = (if stepUpPercentage \<le> 0 \<or> n \<le> 1 then baseAmount
        else baseAmount * (1 + stepUpPercentage / 100) ^ nat (n - 1))
   \<and> SIPServiceImpl_calculateSteppedUpAmount = SIPScheduler_calculateSteppedUpAmount
   \<and> PortfolioServiceImpl_calculateSteppedUpAmount = SIPScheduler_calculateSteppedUpAmount
   \<and> currentInstallmentAmount (buildPortfolioItem fundNames currentNAV txnRepo sip)
       = SIPScheduler_calculateSteppedUpAmount (sip_baseAmount sip) (sip_stepUpPercentage sip)
           (sip_installmentCount sip + 1)"
proof -
  have eq1: "SIPServiceImpl_calculateSteppedUpAmount = SIPScheduler_calculateSteppedUpAmount"
    by (intro ext)
      (simp add: SIPServiceImpl_calculateSteppedUpAmount_def SIPScheduler_calculateSteppedUpAmount_def)
  have eq2: "PortfolioServiceImpl_calculateSteppedUpAmount = SIPScheduler_calculateSteppedUpAmount"
    by (intro ext)
      (simp add: PortfolioServiceImpl_calculateSteppedUpAmount_def
         SIPScheduler_calculateSteppedUpAmount_def)
  have formula: "SIPScheduler_calculateSteppedUpAmount baseAmount stepUpPercentage n
     = (if stepUpPercentage \<le> 0 \<or> n \<le> 1 then baseAmount
        else baseAmount * (1 + stepUpPercentage / 100) ^ nat (n - 1))"
    by (simp add: SIPScheduler_calculateSteppedUpAmount_def std_pow_def)
  have proj: "currentInstallmentAmount (buildPortfolioItem fundNames currentNAV txnRepo sip)
       = PortfolioServiceImpl_calculateSteppedUpAmount (sip_baseAmount sip)
           (sip_stepUpPercentage sip) (sip_installmentCount sip + 1)"
    by (simp add: buildPortfolioItem_def Let_def)
  show ?thesis using eq1 eq2 formula proj by simp
qed

theorem stepped_up_amount_formula_witness:
  "SIPScheduler_calculateSteppedUpAmount 1000 10 1 = 1000
   \<and> SIPScheduler_calculateSteppedUpAmount 1000 10 2 = 1100
   \<and> SIPScheduler_calculateSteppedUpAmount 1000 10 3 = 1210
   \<and> SIPServiceImpl_calculateSteppedUpAmount 1000 10 3 = 1210
   \<and> PortfolioServiceImpl_calculateSteppedUpAmount 1000 10 3 = 1210
   \<and> SIPScheduler_calculateSteppedUpAmount 1000 0 3 = 1000"
proof -
  have p: "nat (2 - 1) = 1" "nat (3 - 1) = 2" by simp_all
  show ?thesis
    using stepped_up_amount_formula [of 1000 10 1] stepped_up_amount_formula [of 1000 10 2]
      stepped_up_amount_formula [of 1000 10 3] stepped_up_amount_formula [of 1000 0 3]
    by (simp add: p power2_eq_square)
qed

section \<open>The execution engine\<close>

text \<open>The transaction \<open>executeSIP\<close> builds and adds to the ledger before it asks for payment.\<close>

definition created_txn :: "SIP \<Rightarrow> real \<Rightarrow> Date \<Rightarrow> string \<Rightarrow> Transaction" where
  "created_txn sip nav executionDate txnId =
     \<lparr> txn_id = txnId, txn_sipId = sip_id sip,
       txn_amount = SIPScheduler_calculateSteppedUpAmount (sip_baseAmount sip)
                      (sip_stepUpPercentage sip) (sip_installmentCount sip + 1),
       txn_units = SIPScheduler_calculateSteppedUpAmount (sip_baseAmount sip)
                     (sip_stepUpPercentage sip) (sip_installmentCount sip + 1) / nav,
       txn_nav = nav, txn_status = PENDING, txn_date = executionDate, txn_type = INSTALLMENT,
       txn_callbackProcessed = False \<rparr>"

lemma executeSIP_inactive:
  "sip_state sip \<noteq> ACTIVE \<Longrightarrow> executeSIP env sip executionDate sys = (None, sys)"
  by (simp add: executeSIP_def)

lemma executeSIP_no_nav:
  "sip_state sip = ACTIVE \<Longrightarrow> getCurrentNAV env (sip_fundId sip) = Inl e \<Longrightarrow>
     executeSIP env sip executionDate sys = (Some e, sys)"
  by (simp add: executeSIP_def)

lemma executeSIP_run:
  assumes "sip_state sip = ACTIVE" "getCurrentNAV env (sip_fundId sip) = Inr nav"
  shows "executeSIP env sip executionDate sys =
           deliver
             (initiatePayment env (fst (generateTransactionId (counter sys)))
                (SIPScheduler_calculateSteppedUpAmount (sip_baseAmount sip)
                   (sip_stepUpPercentage sip) (sip_installmentCount sip + 1)))
             (fst (generateTransactionId (counter sys))) (sip_id sip)
             (sys\<lparr>counter := snd (generateTransactionId (counter sys)),
                  transactionRepository :=
                    TxnRepo_add
                      (created_txn sip nav executionDate (fst (generateTransactionId (counter sys))))
                      (transactionRepository sys)\<rparr>)"
  using assms
  by (simp add: executeSIP_def Let_def created_txn_def Transaction_new_def split: prod.splits)

lemma handlePaymentCallback_units:
  assumes "txn_repo_ok (transactionRepository sys)"
  shows "map_option txn_units
           (TxnRepo_getById k' (transactionRepository (snd (handlePaymentCallback k sipId status sys))))
         = map_option txn_units (TxnRepo_getById k' (transactionRepository sys))"
proof (cases "TxnRepo_getById k (transactionRepository sys)")
  case None
  then show ?thesis by (simp add: handlePaymentCallback_absent)
next
  case (Some txn)
  show ?thesis
  proof (cases "txn_callbackProcessed txn")
    case True
    then show ?thesis using Some by (simp add: handlePaymentCallback_processed)
  next
    case False
    show ?thesis
      unfolding handlePaymentCallback_txn_repo [OF assms Some False]
      using Some by (simp add: getById_store_txn settle_def)
  qed
qed

lemma deliver_units:
  "txn_repo_ok (transactionRepository sys) \<Longrightarrow>
     map_option txn_units
       (TxnRepo_getById k' (transactionRepository (snd (deliver outcomes k sipId sys))))
     = map_option txn_units (TxnRepo_getById k' (transactionRepository sys))"
proof (induction outcomes arbitrary: sys)
  case Nil
  then show ?case by simp
next
  case (Cons status outcomes)
  obtain res sys' where step: "handlePaymentCallback k sipId status sys = (res, sys')"
    by (cases "handlePaymentCallback k sipId status sys") auto
  have ok': "txn_repo_ok (transactionRepository sys')"
    using handlePaymentCallback_keeps_ok [OF Cons.prems, of k sipId status] step by simp
  have u: "map_option txn_units (TxnRepo_getById k' (transactionRepository sys'))
             = map_option txn_units (TxnRepo_getById k' (transactionRepository sys))"
    using handlePaymentCallback_units [OF Cons.prems, of k' k sipId status] step by simp
  show ?case
  proof (cases res)
    case None
    then show ?thesis using Cons.IH [OF ok'] u step by simp
  next
    case (Some e)
    then show ?thesis using u step by simp
  qed
qed

text \<open>
  Whatever the payment service reports back, the transaction \<open>executeSIP\<close> has filed under
  the fresh identifier carries the units \<open>amount / nav\<close>, with no test on the sign of
  the price.
\<close>

lemma executeSIP_units:
  assumes "txn_repo_ok (transactionRepository sys)" "sip_state sip = ACTIVE"
    "getCurrentNAV env (sip_fundId sip) = Inr nav" "nav \<noteq> 0"
  shows "map_option txn_units
           (TxnRepo_getById (fst (generateTransactionId (counter sys)))
              (transactionRepository (snd (executeSIP env sip executionDate sys))))
         = Some (SIPScheduler_calculateSteppedUpAmount (sip_baseAmount sip)
                   (sip_stepUpPercentage sip) (sip_installmentCount sip + 1) / nav)"
proof -
  let ?id = "fst (generateTransactionId (counter sys))"
  let ?txn = "created_txn sip nav executionDate ?id"
  let ?sys1 = "sys\<lparr>counter := snd (generateTransactionId (counter sys)),
                  transactionRepository := TxnRepo_add ?txn (transactionRepository sys)\<rparr>"
  have ok1: "txn_repo_ok (transactionRepository ?sys1)"
    using assms(1) by (simp add: txn_repo_ok_add)
  have "TxnRepo_getById ?id (transactionRepository ?sys1) = Some ?txn"
    by (simp add: TxnRepo_getById_def TxnRepo_add_def update_conv' created_txn_def)
  then show ?thesis
    unfolding executeSIP_run [OF assms(2,3)] deliver_units [OF ok1]
    by (simp add: created_txn_def)
qed

section \<open>Claim about the recorded units\<close>

text \<open>
  The example fund after its price of 120 has been moved by minus 150 percent
  (\<open>simulateMarketMovement\<close> multiplies every stored price by \<open>1 + percentage\<close> and
  accepts any percentage), with a payment service that defers completion.
\<close>

definition env_negative_nav :: collaborators where
  "env_negative_nav =
     \<lparr> getCurrentNAV = MockMarketPriceService_getCurrentNAV [''FUND_000004'' \<mapsto> 120 * (1 + - 1.5)],
       initiatePayment = (\<lambda>transactionId amount. []) \<rparr>"

lemma zeros5: "replicate 5 (CHR ''0'') = ''00000''"
  by (simp add: eval_nat_numeral)

lemma generateTransactionId_3: "generateTransactionId 3 = (''TXN_000003'', 4)"
  by (simp add: generateTransactionId_def generateSimple_def setw_fill0_def decimal.simps [of 3]
        digit_char_def zeros5)

text \<open>
  Claim C7 says that the units recorded for a transaction of the execution engine are
  \<open>amount / NAV\<close> for a positive price and 0 otherwise. The constructor of \<open>Transaction\<close>
  computes exactly that, but \<open>executeSIP\<close> then overwrites the units with the unguarded
  quotient. At a price of -60 the transaction filed for the example SIP (amount 1000)
  carries -50/3 units, where the constructor alone had set 0.
\<close>

theorem executeSIP_negative_nav_units:
  "getCurrentNAV env_negative_nav (sip_fundId sip1) = Inr (- 60)
   \<and> fst (executeSIP env_negative_nav sip1 jan31_2024 system1) = None
   \<and> TxnRepo_getById ''TXN_000003''
        (transactionRepository (snd (executeSIP env_negative_nav sip1 jan31_2024 system1)))
       = Some \<lparr> txn_id = ''TXN_000003'', txn_sipId = ''SIP_000001'', txn_amount = 1000,
                 txn_units = - (50 / 3), txn_nav = - 60, txn_status = PENDING,
                 txn_date = jan31_2024, txn_type = INSTALLMENT, txn_callbackProcessed = False \<rparr>
   \<and> txn_units (Transaction_new ''TXN_000003'' ''SIP_000001'' 1000 (- 60) jan31_2024 INSTALLMENT) = 0"
  by (simp add: executeSIP_def env_negative_nav_def MockMarketPriceService_getCurrentNAV_def sip1_def
        system1_def SIPScheduler_calculateSteppedUpAmount_def generateTransactionId_3
        Transaction_new_def TxnRepo_add_def txnRepo1_def TxnRepo_getById_def)

section \<open>The batch run\<close>

lemma handlePaymentCallback_cerr:
  "cerr (snd (handlePaymentCallback k sipId status sys)) = cerr sys"
  by (simp add: handlePaymentCallback_def Let_def split: option.splits prod.splits)

lemma deliver_cerr: "cerr (snd (deliver outcomes k sipId sys)) = cerr sys"
proof (induction outcomes arbitrary: sys)
  case Nil
  show ?case by simp
next
  case (Cons status outcomes)
  obtain res sys' where step: "handlePaymentCallback k sipId status sys = (res, sys')"
    by (cases "handlePaymentCallback k sipId status sys") auto
  have "cerr sys' = cerr sys"
    using handlePaymentCallback_cerr [of k sipId status sys] step by simp
  then show ?case using Cons.IH [of sys'] step by (cases res) simp_all
qed

lemma executeSIP_cerr: "cerr (snd (executeSIP env sip executionDate sys)) = cerr sys"
  by (simp add: executeSIP_def Let_def deliver_cerr split: sum.splits prod.splits)

text \<open>Every SIP handed to the loop is either counted or reported on the error stream.\<close>

lemma executeDueSIPs_loop_accounts:
  "fst (executeDueSIPs_loop env sips asOfDate n sys)
     + int (length (cerr (snd (executeDueSIPs_loop env sips asOfDate n sys))))
   = n + int (length sips) + int (length (cerr sys))"
proof (induction sips arbitrary: n sys)
  case Nil
  show ?case by simp
next
  case (Cons sip sips)
  obtain res sys' where step: "executeSIP env sip asOfDate sys = (res, sys')"
    by (cases "executeSIP env sip asOfDate sys") auto
  have c: "cerr sys' = cerr sys" using executeSIP_cerr [of env sip asOfDate sys] step by simp
  show ?case
  proof (cases res)
    case None
    then show ?thesis using Cons.IH [of "n + 1" sys'] step c by simp
  next
    case (Some e)
    let ?sys'' = "sys'\<lparr>cerr := cerr sys' @ [''Error executing SIP '' @ sip_id sip @ '': '' @ what e]\<rparr>"
    have "length (cerr ?sys'') = length (cerr sys) + 1" using c by simp
    then show ?thesis using Cons.IH [of n ?sys''] step Some by simp
  qed
qed

text \<open>
  In repositories that file every entity under its own identifier, the callback of a
  stored SIP never throws, and it removes no SIP.
\<close>

lemma handlePaymentCallback_stored:
  assumes "txn_repo_ok (transactionRepository sys)" "sip_repo_ok (sipRepository sys)"
    "SIPRepo_getById sipId (sipRepository sys) \<noteq> None"
  shows "fst (handlePaymentCallback k sipId status sys) = None"
    and "sip_repo_ok (sipRepository (snd (handlePaymentCallback k sipId status sys)))"
    and "SIPRepo_getById k' (sipRepository (snd (handlePaymentCallback k sipId status sys))) = None
           \<longleftrightarrow> SIPRepo_getById k' (sipRepository sys) = None"
proof -
  obtain sip where stored: "SIPRepo_getById sipId (sipRepository sys) = Some sip"
    using assms(3) by auto
  have "fst (handlePaymentCallback k sipId status sys) = None
    \<and> sip_repo_ok (sipRepository (snd (handlePaymentCallback k sipId status sys)))
    \<and> (SIPRepo_getById k' (sipRepository (snd (handlePaymentCallback k sipId status sys))) = None
           \<longleftrightarrow> SIPRepo_getById k' (sipRepository sys) = None)"
  proof (cases "TxnRepo_getById k (transactionRepository sys)")
    case None
    then show ?thesis using assms(2) by (simp add: handlePaymentCallback_absent)
  next
    case (Some txn)
    show ?thesis
    proof (cases "txn_callbackProcessed txn")
      case True
      then show ?thesis using assms(2) Some by (simp add: handlePaymentCallback_processed)
    next
      case False
      show ?thesis
      proof (cases "status = SUCCESS")
        case ns: False
        then show ?thesis
          using assms(2) handlePaymentCallback_not_success [OF assms(1) Some False ns, of sipId]
          by (simp add: store_txn_def)
      next
        case True
        note found = handlePaymentCallback_success_found [OF assms(1) Some False assms(2) stored]
        show ?thesis
          unfolding True using found(1) found(2) found(3) found(4) [of k'] stored
          by (cases "k' = sipId") simp_all
      qed
    qed
  qed
  then show "fst (handlePaymentCallback k sipId status sys) = None"
    and "sip_repo_ok (sipRepository (snd (handlePaymentCallback k sipId status sys)))"
    and "SIPRepo_getById k' (sipRepository (snd (handlePaymentCallback k sipId status sys))) = None
           \<longleftrightarrow> SIPRepo_getById k' (sipRepository sys) = None"
    by simp_all
qed

definition engine_ok :: "system \<Rightarrow> bool" where
  "engine_ok sys \<longleftrightarrow>
     txn_repo_ok (transactionRepository sys) \<and> sip_repo_ok (sipRepository sys)"

lemma deliver_stored:
  "engine_ok sys \<Longrightarrow> SIPRepo_getById sipId (sipRepository sys) \<noteq> None \<Longrightarrow>
     fst (deliver outcomes k sipId sys) = None
     \<and> engine_ok (snd (deliver outcomes k sipId sys))
     \<and> (\<forall>k'. SIPRepo_getById k' (sipRepository (snd (deliver outcomes k sipId sys))) = None
               \<longleftrightarrow> SIPRepo_getById k' (sipRepository sys) = None)"
proof (induction outcomes arbitrary: sys)
  case Nil
  then show ?case by simp
next
  case (Cons status outcomes)
  have t: "txn_repo_ok (transactionRepository sys)" and r: "sip_repo_ok (sipRepository sys)"
    using Cons.prems(1) by (simp_all add: engine_ok_def)
  obtain res sys' where step: "handlePaymentCallback k sipId status sys = (res, sys')"
    by (cases "handlePaymentCallback k sipId status sys") auto
  note h = handlePaymentCallback_stored [OF t r Cons.prems(2), where k = k and status = status]
  have res: "res = None" using h(1) step by simp
  have ok': "engine_ok sys'"
    using h(2) handlePaymentCallback_keeps_ok [OF t, of k sipId status] step
    by (simp add: engine_ok_def)
  have dom': "SIPRepo_getById k' (sipRepository sys') = None
                \<longleftrightarrow> SIPRepo_getById k' (sipRepository sys) = None" for k'
    using h(3) [where k' = k'] step by simp
  have st': "SIPRepo_getById sipId (sipRepository sys') \<noteq> None"
    using dom' [of sipId] Cons.prems(2) by simp
  show ?case
    using Cons.IH [OF ok' st'] dom' step res by simp
qed

definition nav_known :: "collaborators \<Rightarrow> SIP \<Rightarrow> bool" where
  "nav_known env sip = (case getCurrentNAV env (sip_fundId sip) of Inr nav \<Rightarrow> True | Inl e \<Rightarrow> False)"

lemma executeSIP_stored:
  assumes "engine_ok sys" "sip_state sip = ACTIVE"
    "SIPRepo_getById (sip_id sip) (sipRepository sys) \<noteq> None"
  shows "(fst (executeSIP env sip executionDate sys) = None \<longleftrightarrow> nav_known env sip)
     \<and> engine_ok (snd (executeSIP env sip executionDate sys))
     \<and> (\<forall>k'. SIPRepo_getById k' (sipRepository (snd (executeSIP env sip executionDate sys))) = None
               \<longleftrightarrow> SIPRepo_getById k' (sipRepository sys) = None)"
proof (cases "getCurrentNAV env (sip_fundId sip)")
  case (Inl e)
  then show ?thesis
    using assms(1) executeSIP_no_nav [OF assms(2) Inl] by (simp add: nav_known_def)
next
  case (Inr nav)
  let ?id = "fst (generateTransactionId (counter sys))"
  let ?sys1 = "sys\<lparr>counter := snd (generateTransactionId (counter sys)),
                  transactionRepository :=
                    TxnRepo_add (created_txn sip nav executionDate ?id) (transactionRepository sys)\<rparr>"
  have ok1: "engine_ok ?sys1"
    using assms(1) by (simp add: engine_ok_def txn_repo_ok_add)
  have st1: "SIPRepo_getById (sip_id sip) (sipRepository ?sys1) \<noteq> None"
    using assms(3) by simp
  show ?thesis
    unfolding executeSIP_run [OF assms(2) Inr]
    using deliver_stored [OF ok1 st1] Inr by (simp add: nav_known_def)
qed

lemma executeDueSIPs_loop_count:
  "engine_ok sys \<Longrightarrow>
   \<forall>sip \<in> set sips. sip_state sip = ACTIVE
      \<and> SIPRepo_getById (sip_id sip) (sipRepository sys) \<noteq> None \<Longrightarrow>
     fst (executeDueSIPs_loop env sips asOfDate n sys)
       = n + int (length (filter (nav_known env) sips))"
proof (induction sips arbitrary: n sys)
  case Nil
  show ?case by simp
next
  case (Cons sip sips)
  obtain res sys' where step: "executeSIP env sip asOfDate sys = (res, sys')"
    by (cases "executeSIP env sip asOfDate sys") auto
  have act: "sip_state sip = ACTIVE"
    and st: "SIPRepo_getById (sip_id sip) (sipRepository sys) \<noteq> None"
    using Cons.prems(2) by simp_all
  note e = executeSIP_stored [OF Cons.prems(1) act st, of env asOfDate]
  have res: "res = None \<longleftrightarrow> nav_known env sip" using e step by simp
  have ok': "engine_ok sys'" using e step by simp
  have dom': "SIPRepo_getById k' (sipRepository sys') = None
                \<longleftrightarrow> SIPRepo_getById k' (sipRepository sys) = None" for k'
    using e step by simp
  have rest: "\<forall>s \<in> set sips. sip_state s = ACTIVE
      \<and> SIPRepo_getById (sip_id s) (sipRepository sys') \<noteq> None"
    using Cons.prems(2) dom' by simp
  show ?case
  proof (cases res)
    case None
    then show ?thesis using Cons.IH [OF ok' rest, of "n + 1"] step res by simp
  next
    case (Some e)
    let ?sys'' = "sys'\<lparr>cerr := cerr sys' @ [''Error executing SIP '' @ sip_id sip @ '': '' @ what e]\<rparr>"
    have ok'': "engine_ok ?sys''" using ok' by (simp add: engine_ok_def)
    have rest'': "\<forall>s \<in> set sips. sip_state s = ACTIVE
      \<and> SIPRepo_getById (sip_id s) (sipRepository ?sys'') \<noteq> None"
      using rest by simp
    show ?thesis using Cons.IH [OF ok'' rest'', of n] step res Some by simp
  qed
qed

lemma getDueSIPs_stored:
  assumes "sip_repo_ok r" "sip \<in> set (getDueSIPs asOfDate r)"
  shows "sip_state sip = ACTIVE \<and> sip_nextExecutionDate sip \<le> asOfDate
           \<and> SIPRepo_getById (sip_id sip) r \<noteq> None"
proof -
  obtain k where k: "(k, sip) \<in> set (sip_storage r)"
    and due: "sip_state sip = ACTIVE \<and> sip_nextExecutionDate sip \<le> asOfDate"
    using assms(2) by (auto simp: getDueSIPs_def)
  have "sip_id sip = k" using assms(1) k by (auto simp: sip_repo_ok_def)
  moreover have "map_of (sip_storage r) k \<noteq> None"
    using k by (metis map_of_eq_None_iff fst_conv image_eqI)
  ultimately show ?thesis using due by (simp add: SIPRepo_getById_def)
qed

text \<open>
  Two due SIPs, the first on a fund the price service does not know, and a payment
  service in auto-complete mode that reports SUCCESS.
\<close>

definition sip2 :: SIP where
  "sip2 = sip1\<lparr>sip_id := ''SIP_000005'', sip_fundId := ''FUND_000099''\<rparr>"

definition system2 :: system where
  "system2 =
     \<lparr> sipRepository =
         \<lparr> sip_storage = [(''SIP_000005'', sip2), (''SIP_000001'', sip1)],
           userIndex = [''USER_000001'' \<mapsto> [''SIP_000001'', ''SIP_000005'']],
           fundIndex = [''FUND_000004'' \<mapsto> [''SIP_000001''], ''FUND_000099'' \<mapsto> [''SIP_000005'']] \<rparr>,
       transactionRepository = \<lparr> txn_storage = [], sipIndex = Map.empty \<rparr>,
       counter = 6, cerr = [], tz = utc \<rparr>"

definition env1 :: collaborators where
  "env1 =
     \<lparr> getCurrentNAV = MockMarketPriceService_getCurrentNAV [''FUND_000004'' \<mapsto> 50],
       initiatePayment = (\<lambda>transactionId amount. [SUCCESS]) \<rparr>"

lemma system2_facts:
  "engine_ok system2"
  "getDueSIPs jan31_2024 (sipRepository system2) = [sip2, sip1]"
  "getDueSIPs 0 (sipRepository system2) = []"
  "cerr system2 = []"
  "\<not> nav_known env1 sip2"
  "nav_known env1 sip1"
  by (simp_all add: engine_ok_def system2_def txn_repo_ok_def sip_repo_ok_def getDueSIPs_def
        sip1_def sip2_def jan31_2024_def ticks_per_second_def nav_known_def
        env1_def MockMarketPriceService_getCurrentNAV_def)

text \<open>
  Distinct counter values print as distinct identifiers: reading the digits of an
  identifier back, leading zeros included, gives the counter it was printed from.
\<close>

definition digit_value :: "char \<Rightarrow> nat" where
  "digit_value c = of_char c - 48"

definition read_decimal :: "string \<Rightarrow> nat" where
  "read_decimal str = foldl (\<lambda>acc c. 10 * acc + digit_value c) 0 str"

lemma digits_read_back: "map digit_value ''0123456789'' = [0..<10]"
  by (simp add: digit_value_def upt_conv_Cons)

lemma digit_value_digit_char: "n < 10 \<Longrightarrow> digit_value (digit_char n) = n"
proof -
  assume n: "n < 10"
  then have "digit_value (digit_char n) = map digit_value ''0123456789'' ! n"
    unfolding digit_char_def by (subst nth_map) simp_all
  also have "\<dots> = n" unfolding digits_read_back using n by simp
  finally show ?thesis .
qed

lemma read_decimal_snoc: "read_decimal (str @ [c]) = 10 * read_decimal str + digit_value c"
  by (simp add: read_decimal_def)

lemma read_decimal_decimal: "read_decimal (decimal n) = n"
proof (induction n rule: decimal.induct)
  case (1 n)
  show ?case
  proof (cases "n < 10")
    case True
    then show ?thesis
      by (simp add: decimal.simps [of n] read_decimal_def digit_value_digit_char)
  next
    case False
    have "n mod 10 < 10" by simp
    then have "digit_value (digit_char (n mod 10)) = n mod 10" by (rule digit_value_digit_char)
    then show ?thesis
      using False "1.IH" by (simp add: decimal.simps [of n] read_decimal_snoc)
  qed
qed

lemma read_decimal_zeros: "read_decimal (replicate k (CHR ''0'') @ str) = read_decimal str"
proof -
  have "foldl (\<lambda>acc c. 10 * acc + digit_value c) 0 (replicate k (CHR ''0'')) = 0"
    by (induction k) (simp_all add: digit_value_def)
  then show ?thesis by (simp add: read_decimal_def)
qed

lemma generateTransactionId_inj:
  assumes "fst (generateTransactionId a) = fst (generateTransactionId b)"
  shows "a = b"
proof -
  have "setw_fill0 6 (decimal a) = setw_fill0 6 (decimal b)"
    using assms by (simp add: generateTransactionId_def generateSimple_def)
  then have "read_decimal (setw_fill0 6 (decimal a)) = read_decimal (setw_fill0 6 (decimal b))"
    by simp
  then show ?thesis
    unfolding setw_fill0_def read_decimal_zeros read_decimal_decimal .
qed

lemma generateTransactionId_next:
  "c + 1 < 2 ^ 64 \<Longrightarrow> snd (generateTransactionId c) = c + 1"
  by (simp add: generateTransactionId_def generateSimple_def)

text \<open>
  What a run is to leave behind. \<open>filed\<close> lists, for the due SIPs whose fund has a
  price, the transaction built for the SIP under the next identifier of the counter, as
  the first outcome reported by \<open>initiatePayment\<close> settles it (unsettled when the payment
  service reports nothing before it returns). \<open>reported\<close> lists the lines for the due
  SIPs whose price lookup throws.
\<close>

definition first_outcome :: "PaymentStatus list \<Rightarrow> Transaction \<Rightarrow> Transaction" where
  "first_outcome outcomes txn = (case outcomes of [] \<Rightarrow> txn | status # rest \<Rightarrow> settle status txn)"

fun filed :: "collaborators \<Rightarrow> Date \<Rightarrow> nat \<Rightarrow> SIP list \<Rightarrow> Transaction list" where
  "filed env asOfDate c [] = []"
| "filed env asOfDate c (sip # rest) =
     (case getCurrentNAV env (sip_fundId sip) of
        Inl e \<Rightarrow> filed env asOfDate c rest
      | Inr nav \<Rightarrow>
          (let txnId = fst (generateTransactionId c);
               txn = created_txn sip nav asOfDate txnId
           in first_outcome (initiatePayment env txnId (txn_amount txn)) txn
                # filed env asOfDate (snd (generateTransactionId c)) rest))"

fun reported :: "collaborators \<Rightarrow> SIP list \<Rightarrow> string list" where
  "reported env [] = []"
| "reported env (sip # rest) =
     (case getCurrentNAV env (sip_fundId sip) of
        Inl e \<Rightarrow> (''Error executing SIP '' @ sip_id sip @ '': '' @ what e) # reported env rest
      | Inr nav \<Rightarrow> reported env rest)"

lemma handlePaymentCallback_counter:
  "counter (snd (handlePaymentCallback k sipId status sys)) = counter sys"
  by (simp add: handlePaymentCallback_def Let_def split: option.splits prod.splits)

lemma deliver_counter: "counter (snd (deliver outcomes k sipId sys)) = counter sys"
proof (induction outcomes arbitrary: sys)
  case Nil
  show ?case by simp
next
  case (Cons status outcomes)
  obtain res sys' where step: "handlePaymentCallback k sipId status sys = (res, sys')"
    by (cases "handlePaymentCallback k sipId status sys") auto
  have "counter sys' = counter sys"
    using handlePaymentCallback_counter [of k sipId status sys] step by simp
  then show ?case using Cons.IH [of sys'] step by (cases res) simp_all
qed

lemma deliver_flagged:
  "TxnRepo_getById k (transactionRepository sys) = Some txn \<Longrightarrow> txn_callbackProcessed txn \<Longrightarrow>
     deliver outcomes k sipId sys = (None, sys)"
  by (induction outcomes) (simp_all add: handlePaymentCallback_processed)

lemma deliver_ledger:
  assumes "txn_repo_ok (transactionRepository sys)"
    "TxnRepo_getById k (transactionRepository sys) = Some txn" "\<not> txn_callbackProcessed txn"
  shows "TxnRepo_getById k' (transactionRepository (snd (deliver outcomes k sipId sys)))
           = (if k' = k then Some (first_outcome outcomes txn)
              else TxnRepo_getById k' (transactionRepository sys))"
proof (cases outcomes)
  case Nil
  then show ?thesis using assms(2) by (simp add: first_outcome_def)
next
  case (Cons status rest)
  obtain res sys' where step: "handlePaymentCallback k sipId status sys = (res, sys')"
    by (cases "handlePaymentCallback k sipId status sys") auto
  have led: "transactionRepository sys' = transactionRepository (store_txn k (settle status txn) sys)"
    using handlePaymentCallback_txn_repo [OF assms, of sipId status] step by simp
  have look: "TxnRepo_getById k' (transactionRepository sys')
                = (if k' = k then Some (settle status txn)
                   else TxnRepo_getById k' (transactionRepository sys))"
    unfolding led by (rule getById_store_txn)
  have "snd (deliver outcomes k sipId sys) = sys'"
  proof (cases res)
    case None
    have "TxnRepo_getById k (transactionRepository sys') = Some (settle status txn)"
      unfolding led by (simp add: getById_store_txn)
    moreover have "txn_callbackProcessed (settle status txn)" by (simp add: settle_def)
    ultimately have "deliver rest k sipId sys' = (None, sys')" by (rule deliver_flagged)
    then show ?thesis using Cons step None by simp
  next
    case (Some e)
    then show ?thesis using Cons step by simp
  qed
  then show ?thesis using look Cons by (simp add: first_outcome_def)
qed

text \<open>
  One execution for a stored SIP whose fund has a price: nothing is thrown, one identifier
  is taken, the new transaction is in the ledger as the first reported outcome left it,
  and no other ledger entry has changed.
\<close>

lemma executeSIP_files:
  assumes "engine_ok sys" "sip_state sip = ACTIVE"
    "SIPRepo_getById (sip_id sip) (sipRepository sys) \<noteq> None"
    "getCurrentNAV env (sip_fundId sip) = Inr nav"
  shows "fst (executeSIP env sip executionDate sys) = None"
    and "counter (snd (executeSIP env sip executionDate sys)) = snd (generateTransactionId (counter sys))"
    and "TxnRepo_getById k' (transactionRepository (snd (executeSIP env sip executionDate sys)))
           = (if k' = fst (generateTransactionId (counter sys))
              then Some (first_outcome
                           (initiatePayment env (fst (generateTransactionId (counter sys)))
                              (txn_amount (created_txn sip nav executionDate
                                 (fst (generateTransactionId (counter sys))))))
                           (created_txn sip nav executionDate (fst (generateTransactionId (counter sys)))))
              else TxnRepo_getById k' (transactionRepository sys))"
proof -
  let ?id = "fst (generateTransactionId (counter sys))"
  let ?txn = "created_txn sip nav executionDate ?id"
  let ?sys1 = "sys\<lparr>counter := snd (generateTransactionId (counter sys)),
                  transactionRepository := TxnRepo_add ?txn (transactionRepository sys)\<rparr>"
  have amount: "SIPScheduler_calculateSteppedUpAmount (sip_baseAmount sip)
                   (sip_stepUpPercentage sip) (sip_installmentCount sip + 1) = txn_amount ?txn"
    by (simp add: created_txn_def)
  have t1: "txn_repo_ok (transactionRepository ?sys1)"
    using assms(1) by (simp add: engine_ok_def txn_repo_ok_add)
  have get1: "TxnRepo_getById k (TxnRepo_add ?txn (transactionRepository sys))
                = (if k = ?id then Some ?txn else TxnRepo_getById k (transactionRepository sys))" for k
    by (simp add: TxnRepo_getById_def TxnRepo_add_def update_conv' created_txn_def)
  have new1: "TxnRepo_getById ?id (transactionRepository ?sys1) = Some ?txn"
    by (simp add: get1)
  have fresh: "\<not> txn_callbackProcessed ?txn" by (simp add: created_txn_def)
  have nk: "nav_known env sip" using assms(4) by (simp add: nav_known_def)
  show "fst (executeSIP env sip executionDate sys) = None"
    using executeSIP_stored [OF assms(1-3), of env executionDate] nk by simp
  show "counter (snd (executeSIP env sip executionDate sys)) = snd (generateTransactionId (counter sys))"
    unfolding executeSIP_run [OF assms(2,4)] by (simp add: deliver_counter)
  show "TxnRepo_getById k' (transactionRepository (snd (executeSIP env sip executionDate sys)))
           = (if k' = ?id then Some (first_outcome (initiatePayment env ?id (txn_amount ?txn)) ?txn)
              else TxnRepo_getById k' (transactionRepository sys))"
    unfolding executeSIP_run [OF assms(2,4)] amount deliver_ledger [OF t1 new1 fresh]
    by (simp add: get1)
qed

lemma filed_length: "length (filed env asOfDate c sips) = length (filter (nav_known env) sips)"
  by (induction sips arbitrary: c) (simp_all add: nav_known_def Let_def split: sum.splits)

lemma first_outcome_id: "txn_id (first_outcome outcomes txn) = txn_id txn"
  by (simp add: first_outcome_def settle_def split: list.splits)

lemma filed_ids:
  "txn \<in> set (filed env asOfDate c sips) \<Longrightarrow> c + length sips < 2 ^ 64 \<Longrightarrow>
     \<exists>j. c \<le> j \<and> j < c + length sips \<and> txn_id txn = fst (generateTransactionId j)"
proof (induction sips arbitrary: c)
  case Nil
  then show ?case by simp
next
  case (Cons sip sips)
  have nxt: "snd (generateTransactionId c) = c + 1"
    using Cons.prems(2) by (intro generateTransactionId_next) simp
  show ?case
  proof (cases "getCurrentNAV env (sip_fundId sip)")
    case (Inl e)
    then have "txn \<in> set (filed env asOfDate c sips)" using Cons.prems(1) by simp
    moreover have "c + length sips < 2 ^ 64" using Cons.prems(2) by simp
    ultimately obtain j where "c \<le> j" "j < c + length sips" "txn_id txn = fst (generateTransactionId j)"
      using Cons.IH by blast
    then show ?thesis by (intro exI [of _ j]) simp
  next
    case (Inr nav)
    then consider "txn_id txn = fst (generateTransactionId c)"
      | "txn \<in> set (filed env asOfDate (c + 1) sips)"
      using Cons.prems(1) nxt by (auto simp: Let_def first_outcome_id created_txn_def)
    then show ?thesis
    proof cases
      case 1
      then show ?thesis by (intro exI [of _ c]) simp
    next
      case 2
      moreover have "c + 1 + length sips < 2 ^ 64" using Cons.prems(2) by simp
      ultimately obtain j where "c + 1 \<le> j" "j < c + 1 + length sips"
        "txn_id txn = fst (generateTransactionId j)"
        using Cons.IH by blast
      then show ?thesis by (intro exI [of _ j]) simp
    qed
  qed
qed

lemma executeDueSIPs_loop_files:
  "engine_ok sys \<Longrightarrow>
   \<forall>sip \<in> set sips. sip_state sip = ACTIVE
      \<and> SIPRepo_getById (sip_id sip) (sipRepository sys) \<noteq> None \<Longrightarrow>
   counter sys + length sips < 2 ^ 64 \<Longrightarrow>
     counter (snd (executeDueSIPs_loop env sips asOfDate n sys))
       = counter sys + length (filed env asOfDate (counter sys) sips)
     \<and> cerr (snd (executeDueSIPs_loop env sips asOfDate n sys)) = cerr sys @ reported env sips
     \<and> (\<forall>txn \<in> set (filed env asOfDate (counter sys) sips).
          TxnRepo_getById (txn_id txn)
            (transactionRepository (snd (executeDueSIPs_loop env sips asOfDate n sys))) = Some txn)
     \<and> (\<forall>k. k \<notin> txn_id ` set (filed env asOfDate (counter sys) sips) \<longrightarrow>
          TxnRepo_getById k (transactionRepository (snd (executeDueSIPs_loop env sips asOfDate n sys)))
            = TxnRepo_getById k (transactionRepository sys))"
proof (induction sips arbitrary: n sys)
  case Nil
  show ?case by simp
next
  case (Cons sip sips)
  obtain res sys' where step: "executeSIP env sip asOfDate sys = (res, sys')"
    by (cases "executeSIP env sip asOfDate sys") auto
  have act: "sip_state sip = ACTIVE"
    and st: "SIPRepo_getById (sip_id sip) (sipRepository sys) \<noteq> None"
    using Cons.prems(2) by simp_all
  note e = executeSIP_stored [OF Cons.prems(1) act st, of env asOfDate]
  have ok': "engine_ok sys'" using e step by simp
  have dom': "SIPRepo_getById k' (sipRepository sys') = None
                \<longleftrightarrow> SIPRepo_getById k' (sipRepository sys) = None" for k'
    using e step by simp
  have rest: "\<forall>s \<in> set sips. sip_state s = ACTIVE
      \<and> SIPRepo_getById (sip_id s) (sipRepository sys') \<noteq> None"
    using Cons.prems(2) dom' by simp
  have c': "cerr sys' = cerr sys" using executeSIP_cerr [of env sip asOfDate sys] step by simp
  show ?case
  proof (cases "getCurrentNAV env (sip_fundId sip)")
    case (Inl err)
    have run: "res = Some err" "sys' = sys"
      using executeSIP_no_nav [OF act Inl, of asOfDate sys] step by simp_all
    let ?sys'' = "sys\<lparr>cerr := cerr sys @ [''Error executing SIP '' @ sip_id sip @ '': '' @ what err]\<rparr>"
    have ok'': "engine_ok ?sys''" using Cons.prems(1) by (simp add: engine_ok_def)
    have rest'': "\<forall>s \<in> set sips. sip_state s = ACTIVE
      \<and> SIPRepo_getById (sip_id s) (sipRepository ?sys'') \<noteq> None"
      using Cons.prems(2) by simp
    have cnt'': "counter ?sys'' + length sips < 2 ^ 64" using Cons.prems(3) by simp
    show ?thesis
      using Cons.IH [OF ok'' rest'' cnt'', of n] step run Inl by simp
  next
    case (Inr nav)
    let ?id = "fst (generateTransactionId (counter sys))"
    let ?txn = "first_outcome
                  (initiatePayment env ?id (txn_amount (created_txn sip nav asOfDate ?id)))
                  (created_txn sip nav asOfDate ?id)"
    note f = executeSIP_files [OF Cons.prems(1) act st Inr, where executionDate = asOfDate]
    have nxt: "snd (generateTransactionId (counter sys)) = counter sys + 1"
      using Cons.prems(3) by (intro generateTransactionId_next) simp
    have res: "res = None" using f(1) step by simp
    have cnt1: "counter sys' = counter sys + 1" using f(2) step nxt by simp
    have led1: "TxnRepo_getById k (transactionRepository sys')
                  = (if k = ?id then Some ?txn else TxnRepo_getById k (transactionRepository sys))" for k
      using f(3) [where k' = k] step by simp
    have cnt': "counter sys' + length sips < 2 ^ 64" using Cons.prems(3) cnt1 by simp
    note IH = Cons.IH [OF ok' rest cnt', of "n + 1"]
    have fl: "filed env asOfDate (counter sys) (sip # sips)
                = ?txn # filed env asOfDate (counter sys') sips"
      using Inr nxt cnt1 by (simp add: Let_def)
    have id_txn: "txn_id ?txn = ?id" by (simp add: first_outcome_id created_txn_def)
    have later: "?id \<notin> txn_id ` set (filed env asOfDate (counter sys') sips)"
    proof
      assume "?id \<in> txn_id ` set (filed env asOfDate (counter sys') sips)"
      then obtain t where t: "t \<in> set (filed env asOfDate (counter sys') sips)" "txn_id t = ?id"
        by auto
      obtain j where j: "counter sys' \<le> j" "txn_id t = fst (generateTransactionId j)"
        using filed_ids [OF t(1) cnt'] by blast
      have "j = counter sys"
        using generateTransactionId_inj [of j "counter sys"] j(2) t(2) by simp
      then show False using j(1) cnt1 by simp
    qed
    have run: "executeDueSIPs_loop env (sip # sips) asOfDate n sys
                 = executeDueSIPs_loop env sips asOfDate (n + 1) sys'"
      using step res by simp
    define T where "T = ?txn"
    define F where "F = filed env asOfDate (counter sys') sips"
    define S where "S = snd (executeDueSIPs_loop env sips asOfDate (n + 1) sys')"
    have ih1: "counter S = counter sys' + length F"
      and ih2: "cerr S = cerr sys' @ reported env sips"
      and ih3: "\<forall>txn \<in> set F. TxnRepo_getById (txn_id txn) (transactionRepository S) = Some txn"
      and ih4: "\<forall>k. k \<notin> txn_id ` set F \<longrightarrow>
                  TxnRepo_getById k (transactionRepository S)
                    = TxnRepo_getById k (transactionRepository sys')"
      using IH unfolding F_def S_def by blast+
    have idT: "txn_id T = ?id" unfolding T_def by (rule id_txn)
    have later': "?id \<notin> txn_id ` set F" unfolding F_def by (rule later)
    have ledT: "TxnRepo_getById k (transactionRepository sys')
                  = (if k = ?id then Some T else TxnRepo_getById k (transactionRepository sys))" for k
      unfolding T_def by (rule led1)
    have g1: "counter S = counter sys + length (T # F)" using ih1 cnt1 by simp
    have g2: "cerr S = cerr sys @ reported env (sip # sips)" using ih2 c' Inr by simp
    have head: "TxnRepo_getById (txn_id T) (transactionRepository S) = Some T"
      using ih4 later' ledT [of ?id] idT by simp
    have g3: "\<forall>txn \<in> set (T # F). TxnRepo_getById (txn_id txn) (transactionRepository S) = Some txn"
      using head ih3 by simp
    have g4: "\<forall>k. k \<notin> txn_id ` set (T # F) \<longrightarrow>
                TxnRepo_getById k (transactionRepository S)
                  = TxnRepo_getById k (transactionRepository sys)"
    proof (intro allI impI)
      fix k
      assume k: "k \<notin> txn_id ` set (T # F)"
      then have "k \<noteq> ?id" "k \<notin> txn_id ` set F" using idT by auto
      then show "TxnRepo_getById k (transactionRepository S)
                  = TxnRepo_getById k (transactionRepository sys)"
        using ih4 ledT [of k] by simp
    qed
    have fl': "filed env asOfDate (counter sys) (sip # sips) = T # F"
      unfolding T_def F_def by (rule fl)
    show ?thesis
      unfolding run fl' S_def [symmetric] using g1 g2 g3 g4 by blast
  qed
qed


text \<open>
  \<open>paid\<close> lists the due SIPs whose fund has a price and whose payment, asked for under
  the next identifier with the stepped-up amount, is first reported as SUCCESS: the SIPs
  the reconciler is to advance during the run.
\<close>

definition first_success :: "PaymentStatus list \<Rightarrow> bool" where
  "first_success outcomes = (case outcomes of [] \<Rightarrow> False | status # rest \<Rightarrow> status = SUCCESS)"

fun paid :: "collaborators \<Rightarrow> nat \<Rightarrow> SIP list \<Rightarrow> SIP list" where
  "paid env c [] = []"
| "paid env c (sip # rest) =
     (case getCurrentNAV env (sip_fundId sip) of
        Inl e \<Rightarrow> paid env c rest
      | Inr nav \<Rightarrow>
          (let txnId = fst (generateTransactionId c);
               amount = SIPScheduler_calculateSteppedUpAmount (sip_baseAmount sip)
                          (sip_stepUpPercentage sip) (sip_installmentCount sip + 1)
           in (if first_success (initiatePayment env txnId amount) then [sip] else [])
                @ paid env (snd (generateTransactionId c)) rest))"

lemma handlePaymentCallback_tz: "tz (snd (handlePaymentCallback k sipId status sys)) = tz sys"
  by (simp add: handlePaymentCallback_def Let_def split: option.splits prod.splits)

lemma deliver_tz: "tz (snd (deliver outcomes k sipId sys)) = tz sys"
proof (induction outcomes arbitrary: sys)
  case Nil
  show ?case by simp
next
  case (Cons status outcomes)
  obtain res sys' where step: "handlePaymentCallback k sipId status sys = (res, sys')"
    by (cases "handlePaymentCallback k sipId status sys") auto
  have "tz sys' = tz sys"
    using handlePaymentCallback_tz [of k sipId status sys] step by simp
  then show ?case using Cons.IH [of sys'] step by (cases res) simp_all
qed

lemma executeSIP_tz: "tz (snd (executeSIP env sip executionDate sys)) = tz sys"
  by (simp add: executeSIP_def Let_def deliver_tz split: sum.splits prod.splits)

lemma deliver_first:
  assumes "txn_repo_ok (transactionRepository sys)"
    "TxnRepo_getById k (transactionRepository sys) = Some txn" "\<not> txn_callbackProcessed txn"
  shows "snd (deliver (status # rest) k sipId sys) = snd (handlePaymentCallback k sipId status sys)"
proof -
  obtain res sys' where step: "handlePaymentCallback k sipId status sys = (res, sys')"
    by (cases "handlePaymentCallback k sipId status sys") auto
  show ?thesis
  proof (cases res)
    case None
    have "TxnRepo_getById k (transactionRepository sys') = Some (settle status txn)"
      using handlePaymentCallback_settled [OF assms, of sipId status] step by simp
    moreover have "txn_callbackProcessed (settle status txn)" by (simp add: settle_def)
    ultimately have "deliver rest k sipId sys' = (None, sys')" by (rule deliver_flagged)
    then show ?thesis using step None by simp
  next
    case (Some e)
    then show ?thesis using step by simp
  qed
qed

lemma deliver_sips:
  assumes "txn_repo_ok (transactionRepository sys)"
    "TxnRepo_getById k (transactionRepository sys) = Some txn" "\<not> txn_callbackProcessed txn"
    "sip_repo_ok (sipRepository sys)" "SIPRepo_getById sipId (sipRepository sys) = Some stored"
  shows "SIPRepo_getById k' (sipRepository (snd (deliver outcomes k sipId sys)))
           = (if k' = sipId \<and> first_success outcomes then Some (advanced (tz sys) stored)
              else SIPRepo_getById k' (sipRepository sys))"
proof (cases outcomes)
  case Nil
  then show ?thesis by (simp add: first_success_def)
next
  case (Cons status rest)
  show ?thesis
  proof (cases "status = SUCCESS")
    case True
    note found = handlePaymentCallback_success_found [OF assms]
    show ?thesis
      unfolding Cons deliver_first [OF assms(1-3)] True
      using found(2) found(4) [of k'] by (simp add: first_success_def)
  next
    case False
    have "handlePaymentCallback k sipId status sys = (None, store_txn k (settle status txn) sys)"
      using assms(1-3) False by (rule handlePaymentCallback_not_success)
    then show ?thesis
      unfolding Cons deliver_first [OF assms(1-3)]
      using False by (simp add: first_success_def store_txn_def)
  qed
qed

lemma executeSIP_sips:
  assumes "engine_ok sys" "sip_state sip = ACTIVE"
    "SIPRepo_getById (sip_id sip) (sipRepository sys) = Some stored"
    "getCurrentNAV env (sip_fundId sip) = Inr nav"
  shows "SIPRepo_getById k' (sipRepository (snd (executeSIP env sip executionDate sys)))
           = (if k' = sip_id sip
                 \<and> first_success
                      (initiatePayment env (fst (generateTransactionId (counter sys)))
                         (SIPScheduler_calculateSteppedUpAmount (sip_baseAmount sip)
                            (sip_stepUpPercentage sip) (sip_installmentCount sip + 1)))
              then Some (advanced (tz sys) stored)
              else SIPRepo_getById k' (sipRepository sys))"
proof -
  let ?id = "fst (generateTransactionId (counter sys))"
  let ?txn = "created_txn sip nav executionDate ?id"
  let ?sys1 = "sys\<lparr>counter := snd (generateTransactionId (counter sys)),
                  transactionRepository := TxnRepo_add ?txn (transactionRepository sys)\<rparr>"
  have t1: "txn_repo_ok (transactionRepository ?sys1)"
    using assms(1) by (simp add: engine_ok_def txn_repo_ok_add)
  have new1: "TxnRepo_getById ?id (transactionRepository ?sys1) = Some ?txn"
    by (simp add: TxnRepo_getById_def TxnRepo_add_def update_conv' created_txn_def)
  have fresh: "\<not> txn_callbackProcessed ?txn" by (simp add: created_txn_def)
  have r1: "sip_repo_ok (sipRepository ?sys1)" using assms(1) by (simp add: engine_ok_def)
  have s1: "SIPRepo_getById (sip_id sip) (sipRepository ?sys1) = Some stored"
    using assms(3) by simp
  show ?thesis
    unfolding executeSIP_run [OF assms(2,4)] deliver_sips [OF t1 new1 fresh r1 s1]
    by simp
qed

lemma paid_subset: "set (paid env c sips) \<subseteq> set sips"
  by (induction sips arbitrary: c) (auto simp: Let_def split: sum.splits)

lemma executeDueSIPs_loop_sips:
  "engine_ok sys \<Longrightarrow>
   \<forall>sip \<in> set sips. sip_state sip = ACTIVE
      \<and> SIPRepo_getById (sip_id sip) (sipRepository sys) = Some sip \<Longrightarrow>
   distinct (map sip_id sips) \<Longrightarrow>
     tz (snd (executeDueSIPs_loop env sips asOfDate n sys)) = tz sys
     \<and> (\<forall>sip \<in> set (paid env (counter sys) sips).
          SIPRepo_getById (sip_id sip)
            (sipRepository (snd (executeDueSIPs_loop env sips asOfDate n sys)))
            = Some (advanced (tz sys) sip))
     \<and> (\<forall>k. k \<notin> sip_id ` set (paid env (counter sys) sips) \<longrightarrow>
          SIPRepo_getById k (sipRepository (snd (executeDueSIPs_loop env sips asOfDate n sys)))
            = SIPRepo_getById k (sipRepository sys))"
proof (induction sips arbitrary: n sys)
  case Nil
  show ?case by simp
next
  case (Cons sip sips)
  obtain res sys' where step: "executeSIP env sip asOfDate sys = (res, sys')"
    by (cases "executeSIP env sip asOfDate sys") auto
  have act: "sip_state sip = ACTIVE"
    and st: "SIPRepo_getById (sip_id sip) (sipRepository sys) = Some sip"
    using Cons.prems(2) by simp_all
  have st': "SIPRepo_getById (sip_id sip) (sipRepository sys) \<noteq> None" using st by simp
  note e = executeSIP_stored [OF Cons.prems(1) act st', of env asOfDate]
  have ok': "engine_ok sys'" using e step by simp
  have tz': "tz sys' = tz sys" using executeSIP_tz [of env sip asOfDate sys] step by simp
  have others: "sip_id sip \<notin> sip_id ` set sips" and dist: "distinct (map sip_id sips)"
    using Cons.prems(3) by simp_all
  show ?case
  proof (cases "getCurrentNAV env (sip_fundId sip)")
    case (Inl err)
    have run: "res = Some err" "sys' = sys"
      using executeSIP_no_nav [OF act Inl, of asOfDate sys] step by simp_all
    let ?sys'' = "sys\<lparr>cerr := cerr sys @ [''Error executing SIP '' @ sip_id sip @ '': '' @ what err]\<rparr>"
    have ok'': "engine_ok ?sys''" using Cons.prems(1) by (simp add: engine_ok_def)
    have rest'': "\<forall>s \<in> set sips. sip_state s = ACTIVE
      \<and> SIPRepo_getById (sip_id s) (sipRepository ?sys'') = Some s"
      using Cons.prems(2) by simp
    show ?thesis
      using Cons.IH [OF ok'' rest'' dist, of n] step run Inl by simp
  next
    case (Inr nav)
    define P where "P = first_success
                      (initiatePayment env (fst (generateTransactionId (counter sys)))
                         (SIPScheduler_calculateSteppedUpAmount (sip_baseAmount sip)
                            (sip_stepUpPercentage sip) (sip_installmentCount sip + 1)))"
    have sips1: "SIPRepo_getById k (sipRepository sys')
                   = (if k = sip_id sip \<and> P then Some (advanced (tz sys) sip)
                      else SIPRepo_getById k (sipRepository sys))" for k
      using executeSIP_sips [OF Cons.prems(1) act st Inr, where executionDate = asOfDate and k' = k]
        step unfolding P_def by simp
    have nk: "nav_known env sip" using Inr by (simp add: nav_known_def)
    have res: "res = None" using e nk step by simp
    have cnt1: "counter sys' = snd (generateTransactionId (counter sys))"
      using executeSIP_files(2) [OF Cons.prems(1) act st' Inr, of asOfDate] step by simp
    have rest: "\<forall>s \<in> set sips. sip_state s = ACTIVE
      \<and> SIPRepo_getById (sip_id s) (sipRepository sys') = Some s"
    proof
      fix s
      assume s: "s \<in> set sips"
      then have "sip_id s \<in> sip_id ` set sips" by (rule imageI)
      then have "sip_id s \<noteq> sip_id sip" using others by metis
      then show "sip_state s = ACTIVE \<and> SIPRepo_getById (sip_id s) (sipRepository sys') = Some s"
        using Cons.prems(2) s by (simp add: sips1)
    qed
    define F where "F = paid env (counter sys') sips"
    define S where "S = snd (executeDueSIPs_loop env sips asOfDate (n + 1) sys')"
    have ih1: "tz S = tz sys"
      and ih2: "\<forall>s \<in> set F. SIPRepo_getById (sip_id s) (sipRepository S) = Some (advanced (tz sys) s)"
      and ih3: "\<forall>k. k \<notin> sip_id ` set F \<longrightarrow>
                  SIPRepo_getById k (sipRepository S) = SIPRepo_getById k (sipRepository sys')"
      using Cons.IH [OF ok' rest dist, of "n + 1"] tz' unfolding F_def S_def by simp_all
    have run: "snd (executeDueSIPs_loop env (sip # sips) asOfDate n sys) = S"
      using step res by (simp add: S_def)
    have pd: "paid env (counter sys) (sip # sips) = (if P then [sip] else []) @ F"
      using Inr by (simp add: Let_def P_def F_def cnt1)
    have notF: "sip_id sip \<notin> sip_id ` set F"
      using others paid_subset [of env "counter sys'" sips] unfolding F_def by auto
    have head: "SIPRepo_getById (sip_id sip) (sipRepository S)
                  = (if P then Some (advanced (tz sys) sip)
                     else SIPRepo_getById (sip_id sip) (sipRepository sys))"
      using ih3 notF sips1 [of "sip_id sip"] by simp
    have g2: "\<forall>s \<in> set ((if P then [sip] else []) @ F).
                SIPRepo_getById (sip_id s) (sipRepository S) = Some (advanced (tz sys) s)"
      using head ih2 by auto
    have g3: "\<forall>k. k \<notin> sip_id ` set ((if P then [sip] else []) @ F) \<longrightarrow>
                SIPRepo_getById k (sipRepository S) = SIPRepo_getById k (sipRepository sys)"
    proof (intro allI impI)
      fix k
      assume k: "k \<notin> sip_id ` set ((if P then [sip] else []) @ F)"
      then have kF: "k \<notin> sip_id ` set F" by auto
      have "\<not> (k = sip_id sip \<and> P)" using k by auto
      then have "SIPRepo_getById k (sipRepository sys') = SIPRepo_getById k (sipRepository sys)"
        unfolding sips1 [of k] by (simp only: if_False)
      then show "SIPRepo_getById k (sipRepository S) = SIPRepo_getById k (sipRepository sys)"
        using ih3 kF by simp
    qed
    show ?thesis
      unfolding run pd using ih1 g2 g3 by blast
  qed
qed

lemma getDueSIPs_as_stored:
  assumes "sip_repo_ok r" "distinct (map fst (sip_storage r))"
  shows "distinct (map sip_id (getDueSIPs asOfDate r))"
    and "sip \<in> set (getDueSIPs asOfDate r) \<Longrightarrow> SIPRepo_getById (sip_id sip) r = Some sip"
proof -
  have ids: "map sip_id (getDueSIPs asOfDate r)
               = map fst (filter (\<lambda>(k, sip). sip_state sip = ACTIVE \<and> sip_nextExecutionDate sip \<le> asOfDate)
                            (sip_storage r))"
    unfolding getDueSIPs_def map_map
    by (rule map_cong) (use assms(1) in \<open>auto simp: sip_repo_ok_def\<close>)
  show "distinct (map sip_id (getDueSIPs asOfDate r))"
    unfolding ids using assms(2) by (rule distinct_map_filter)
  assume "sip \<in> set (getDueSIPs asOfDate r)"
  then obtain k where k: "(k, sip) \<in> set (sip_storage r)" by (auto simp: getDueSIPs_def)
  then have "sip_id sip = k" using assms(1) by (auto simp: sip_repo_ok_def)
  moreover have "map_of (sip_storage r) k = Some sip" using assms(2) k by simp
  ultimately show "SIPRepo_getById (sip_id sip) r = Some sip" by (simp add: SIPRepo_getById_def)
qed

lemma generateTransactionId_6: "generateTransactionId 6 = (''TXN_000006'', 7)"
  by (simp add: generateTransactionId_def generateSimple_def setw_fill0_def decimal.simps [of 6]
        digit_char_def zeros5)

lemma system2_run:
  "filed env1 jan31_2024 6 [sip2, sip1]
     = [\<lparr> txn_id = ''TXN_000006'', txn_sipId = ''SIP_000001'', txn_amount = 1000,
           txn_units = 20, txn_nav = 50, txn_status = SUCCESS, txn_date = jan31_2024,
           txn_type = INSTALLMENT, txn_callbackProcessed = True \<rparr>]"
  "reported env1 [sip2, sip1] = [''Error executing SIP SIP_000005: Fund not found: FUND_000099'']"
  "counter system2 = 6"
  "TxnRepo_getById ''TXN_000002'' (transactionRepository system2) = None"
  "paid env1 6 [sip2, sip1] = [sip1]"
  "distinct (map fst (sip_storage (sipRepository system2)))"
  "tz system2 = utc"
  "SIPRepo_getById ''SIP_000005'' (sipRepository system2) = Some sip2"
  "sip_id sip1 = ''SIP_000001''"
  by (simp_all add: system2_def sip1_def sip2_def env1_def first_success_def SIPRepo_getById_def
        MockMarketPriceService_getCurrentNAV_def generateTransactionId_6 created_txn_def
        first_outcome_def settle_def SIPScheduler_calculateSteppedUpAmount_def Let_def
        TxnRepo_getById_def)


section \<open>Claim about the batch run\<close>

text \<open>
  Claim C8. \<open>executeDueSIPs\<close> itself never throws (it returns a count and a state for
  every input). Each due SIP is either counted or, when its execution threw, reported by
  one line on the error stream, after which the loop goes on with the next SIP: the count
  plus the number of lines written equals the number of due SIPs. When no SIP is due the
  result is 0 and the state is returned as it was, so nothing is written to any
  repository. In repositories that file every entity under its own identifier the count
  is exactly the number of due SIPs whose fund has a price, whatever happened to the
  SIPs before them in the run. For each of those SIPs, as long as the identifier counter
  does not wrap around, the run has taken one identifier, filed the transaction of the
  installment under it and passed it to \<open>initiatePayment\<close>: the ledger holds that
  transaction as the first reported outcome settled it, every other ledger entry is as
  before, the counter has advanced by the count, and the error stream has gained exactly
  the lines of the SIPs whose price lookup threw. When no two SIPs share a key of the
  repository, the SIPs whose payment is first reported as SUCCESS are stored with one more
  installment and the next execution date, and every other SIP is stored as before.
\<close>

theorem executeDueSIPs_processes_all:
  "fst (executeDueSIPs env asOfDate sys)
     + int (length (cerr (snd (executeDueSIPs env asOfDate sys))))
     = int (length (getDueSIPs asOfDate (sipRepository sys))) + int (length (cerr sys))
   \<and> (getDueSIPs asOfDate (sipRepository sys) = [] \<longrightarrow> executeDueSIPs env asOfDate sys = (0, sys))
   \<and> (engine_ok sys \<longrightarrow>
        fst (executeDueSIPs env asOfDate sys)
          = int (length (filter (nav_known env) (getDueSIPs asOfDate (sipRepository sys)))))
   \<and> (engine_ok sys
        \<and> counter sys + length (getDueSIPs asOfDate (sipRepository sys)) < 2 ^ 64 \<longrightarrow>
        fst (executeDueSIPs env asOfDate sys)
          = int (length (filed env asOfDate (counter sys) (getDueSIPs asOfDate (sipRepository sys))))
        \<and> counter (snd (executeDueSIPs env asOfDate sys))
          = counter sys
              + length (filed env asOfDate (counter sys) (getDueSIPs asOfDate (sipRepository sys)))
        \<and> cerr (snd (executeDueSIPs env asOfDate sys))
          = cerr sys @ reported env (getDueSIPs asOfDate (sipRepository sys))
        \<and> (\<forall>txn \<in> set (filed env asOfDate (counter sys) (getDueSIPs asOfDate (sipRepository sys))).
              TxnRepo_getById (txn_id txn)
                (transactionRepository (snd (executeDueSIPs env asOfDate sys))) = Some txn)
        \<and> (\<forall>k. k \<notin> txn_id ` set (filed env asOfDate (counter sys)
                                      (getDueSIPs asOfDate (sipRepository sys))) \<longrightarrow>
              TxnRepo_getById k (transactionRepository (snd (executeDueSIPs env asOfDate sys)))
                = TxnRepo_getById k (transactionRepository sys)))
   \<and> (engine_ok sys \<and> distinct (map fst (sip_storage (sipRepository sys))) \<longrightarrow>
        (\<forall>sip \<in> set (paid env (counter sys) (getDueSIPs asOfDate (sipRepository sys))).
              SIPRepo_getById (sip_id sip) (sipRepository (snd (executeDueSIPs env asOfDate sys)))
                = Some (advanced (tz sys) sip))
        \<and> (\<forall>k. k \<notin> sip_id ` set (paid env (counter sys)
                                      (getDueSIPs asOfDate (sipRepository sys))) \<longrightarrow>
              SIPRepo_getById k (sipRepository (snd (executeDueSIPs env asOfDate sys)))
                = SIPRepo_getById k (sipRepository sys)))"
proof -
  define due where "due = getDueSIPs asOfDate (sipRepository sys)"
  have run: "executeDueSIPs env asOfDate sys = executeDueSIPs_loop env due asOfDate 0 sys"
    by (simp add: executeDueSIPs_def due_def)
  have accounts: "fst (executeDueSIPs env asOfDate sys)
     + int (length (cerr (snd (executeDueSIPs env asOfDate sys))))
     = int (length due) + int (length (cerr sys))"
    unfolding run using executeDueSIPs_loop_accounts [of env due asOfDate 0 sys] by simp
  have none: "due = [] \<longrightarrow> executeDueSIPs env asOfDate sys = (0, sys)"
    unfolding run by simp
  have stored: "\<forall>sip \<in> set due.
      sip_state sip = ACTIVE \<and> SIPRepo_getById (sip_id sip) (sipRepository sys) \<noteq> None"
    if "engine_ok sys"
    using that getDueSIPs_stored [of "sipRepository sys" _ asOfDate]
    unfolding due_def engine_ok_def by blast
  have count: "fst (executeDueSIPs env asOfDate sys) = int (length (filter (nav_known env) due))"
    if ok: "engine_ok sys"
    unfolding run using executeDueSIPs_loop_count [OF ok stored [OF ok], of env asOfDate 0] by simp
  have files: "fst (executeDueSIPs env asOfDate sys) = int (length (filed env asOfDate (counter sys) due))
        \<and> counter (snd (executeDueSIPs env asOfDate sys))
          = counter sys + length (filed env asOfDate (counter sys) due)
        \<and> cerr (snd (executeDueSIPs env asOfDate sys)) = cerr sys @ reported env due
        \<and> (\<forall>txn \<in> set (filed env asOfDate (counter sys) due).
              TxnRepo_getById (txn_id txn)
                (transactionRepository (snd (executeDueSIPs env asOfDate sys))) = Some txn)
        \<and> (\<forall>k. k \<notin> txn_id ` set (filed env asOfDate (counter sys) due) \<longrightarrow>
              TxnRepo_getById k (transactionRepository (snd (executeDueSIPs env asOfDate sys)))
                = TxnRepo_getById k (transactionRepository sys))"
    if ok: "engine_ok sys" and nowrap: "counter sys + length due < 2 ^ 64"
    unfolding run
    using executeDueSIPs_loop_files [OF ok stored [OF ok] nowrap, of env asOfDate 0]
      count [OF ok, unfolded run] filed_length [of env asOfDate "counter sys" due]
    by simp
  have sips: "(\<forall>sip \<in> set (paid env (counter sys) due).
              SIPRepo_getById (sip_id sip) (sipRepository (snd (executeDueSIPs env asOfDate sys)))
                = Some (advanced (tz sys) sip))
        \<and> (\<forall>k. k \<notin> sip_id ` set (paid env (counter sys) due) \<longrightarrow>
              SIPRepo_getById k (sipRepository (snd (executeDueSIPs env asOfDate sys)))
                = SIPRepo_getById k (sipRepository sys))"
    if ok: "engine_ok sys" and dk: "distinct (map fst (sip_storage (sipRepository sys)))"
  proof -
    have r: "sip_repo_ok (sipRepository sys)" using ok by (simp add: engine_ok_def)
    note d = getDueSIPs_as_stored [OF r dk, where asOfDate = asOfDate]
    have as_stored: "\<forall>sip \<in> set due. sip_state sip = ACTIVE
        \<and> SIPRepo_getById (sip_id sip) (sipRepository sys) = Some sip"
      using stored [OF ok] d(2) unfolding due_def by blast
    have dist: "distinct (map sip_id due)" unfolding due_def by (rule d(1))
    show ?thesis
      unfolding run using executeDueSIPs_loop_sips [OF ok as_stored dist, of env asOfDate 0]
      by blast
  qed
  show ?thesis
    unfolding due_def [symmetric] using accounts none count files sips by blast
qed

theorem executeDueSIPs_processes_all_witness:
  "engine_ok system2
   \<and> getDueSIPs jan31_2024 (sipRepository system2) = [sip2, sip1]
   \<and> counter system2 = 6
   \<and> counter system2 + length (getDueSIPs jan31_2024 (sipRepository system2)) < 2 ^ 64
   \<and> \<not> nav_known env1 sip2 \<and> nav_known env1 sip1
   \<and> fst (executeDueSIPs env1 jan31_2024 system2) = 1
   \<and> counter (snd (executeDueSIPs env1 jan31_2024 system2)) = 7
   \<and> cerr (snd (executeDueSIPs env1 jan31_2024 system2))
       = [''Error executing SIP SIP_000005: Fund not found: FUND_000099'']
   \<and> TxnRepo_getById ''TXN_000006'' (transactionRepository (snd (executeDueSIPs env1 jan31_2024 system2)))
       = Some \<lparr> txn_id = ''TXN_000006'', txn_sipId = ''SIP_000001'', txn_amount = 1000,
                 txn_units = 20, txn_nav = 50, txn_status = SUCCESS, txn_date = jan31_2024,
                 txn_type = INSTALLMENT, txn_callbackProcessed = True \<rparr>
   \<and> TxnRepo_getById ''TXN_000002'' (transactionRepository (snd (executeDueSIPs env1 jan31_2024 system2)))
       = None
   \<and> distinct (map fst (sip_storage (sipRepository system2)))
   \<and> SIPRepo_getById ''SIP_000001'' (sipRepository (snd (executeDueSIPs env1 jan31_2024 system2)))
       = Some (sip1\<lparr>sip_installmentCount := sip_installmentCount sip1 + 1,
                    sip_nextExecutionDate :=
                      calculateNextExecutionDate utc (sip_nextExecutionDate sip1)
                        (sip_frequency sip1)\<rparr>)
   \<and> SIPRepo_getById ''SIP_000005'' (sipRepository (snd (executeDueSIPs env1 jan31_2024 system2)))
       = Some sip2
   \<and> getDueSIPs 0 (sipRepository system2) = []
   \<and> executeDueSIPs env1 0 system2 = (0, system2)"
proof -
  note t = executeDueSIPs_processes_all [of env1 jan31_2024 system2,
      unfolded system2_facts(2) system2_run(3) system2_run(1,2) system2_run(5) system2_run(7)]
  have hyp: "engine_ok system2 \<and> 6 + length [sip2, sip1] < (2::nat) ^ 64"
    using system2_facts(1) by simp
  have c: "fst (executeDueSIPs env1 jan31_2024 system2) = 1"
    using t hyp by simp
  have n: "counter (snd (executeDueSIPs env1 jan31_2024 system2)) = 7"
    using t hyp by simp
  have e: "cerr (snd (executeDueSIPs env1 jan31_2024 system2))
       = [''Error executing SIP SIP_000005: Fund not found: FUND_000099'']"
    using t hyp by (simp add: system2_facts(4))
  have l: "TxnRepo_getById ''TXN_000006'' (transactionRepository (snd (executeDueSIPs env1 jan31_2024 system2)))
       = Some \<lparr> txn_id = ''TXN_000006'', txn_sipId = ''SIP_000001'', txn_amount = 1000,
                 txn_units = 20, txn_nav = 50, txn_status = SUCCESS, txn_date = jan31_2024,
                 txn_type = INSTALLMENT, txn_callbackProcessed = True \<rparr>"
    using t hyp by simp
  have o: "TxnRepo_getById ''TXN_000002'' (transactionRepository (snd (executeDueSIPs env1 jan31_2024 system2)))
       = None"
    using t hyp by (simp add: system2_run(4))
  have a: "SIPRepo_getById ''SIP_000001'' (sipRepository (snd (executeDueSIPs env1 jan31_2024 system2)))
       = Some (sip1\<lparr>sip_installmentCount := sip_installmentCount sip1 + 1,
                    sip_nextExecutionDate :=
                      calculateNextExecutionDate utc (sip_nextExecutionDate sip1)
                        (sip_frequency sip1)\<rparr>)"
    using t hyp system2_run(6) by (simp add: advanced_def system2_run(9))
  have u: "SIPRepo_getById ''SIP_000005'' (sipRepository (snd (executeDueSIPs env1 jan31_2024 system2)))
       = Some sip2"
    using t hyp system2_run(6) by (simp add: system2_run(8,9))
  have z: "executeDueSIPs env1 0 system2 = (0, system2)"
    using executeDueSIPs_processes_all [of env1 0 system2] system2_facts(3) by simp
  show ?thesis
    using system2_facts system2_run(3) system2_run(6) hyp c n e l o a u z by simp
qed

section \<open>The valuation engine\<close>

text \<open>
  The index of the ledger is in step with its storage for a SIP identifier when the
  identifiers listed under it are exactly the keys of the stored transactions of that
  SIP. \<open>add\<close> with a fresh identifier and the reconciler's \<open>update\<close>, which never
  changes the SIP of a transaction, keep it so (lemmas \<open>sipIndex_ok_add\<close> and
  \<open>sipIndex_ok_settle\<close>).
\<close>

definition sipIndex_ok :: "InMemoryTransactionRepository \<Rightarrow> string \<Rightarrow> bool" where
  "sipIndex_ok r sipId \<longleftrightarrow>
     distinct (map fst (txn_storage r))
     \<and> distinct (index_at (sipIndex r) sipId)
     \<and> set (index_at (sipIndex r) sipId)
         = set (map fst (filter (\<lambda>(k, txn). txn_sipId txn = sipId) (txn_storage r)))"

text \<open>A ledger without negative amounts.\<close>

definition amounts_ok :: "InMemoryTransactionRepository \<Rightarrow> bool" where
  "amounts_ok r \<longleftrightarrow> (\<forall>(k, txn) \<in> set (txn_storage r). 0 \<le> txn_amount txn)"

lemma foldl_plus_sum_list:
  fixes f :: "'a \<Rightarrow> real"
  shows "foldl (\<lambda>acc x. acc + f x) a xs = a + sum_list (map f xs)"
  by (induction xs arbitrary: a) (simp_all add: algebra_simps)

lemma getBySipId_index_at:
  "TxnRepo_getBySipId sipId r = List.map_filter (map_of (txn_storage r)) (index_at (sipIndex r) sipId)"
  by (simp add: TxnRepo_getBySipId_def index_at_def map_filter_simps split: option.splits)

lemma map_filter_all_some:
  "\<forall>k \<in> set ks. g k \<noteq> None \<Longrightarrow> List.map_filter g ks = map (the \<circ> g) ks"
  by (induction ks) (auto simp: map_filter_simps)

lemma sum_over_index:
  fixes f :: "Transaction \<Rightarrow> real"
  assumes "sipIndex_ok r sipId"
  shows "sum_list (map f (filter Q (TxnRepo_getBySipId sipId r)))
         = sum_list (map f (filter (\<lambda>txn. txn_sipId txn = sipId \<and> Q txn) (map snd (txn_storage r))))"
proof -
  let ?st = "txn_storage r"
  let ?ids = "index_at (sipIndex r) sipId"
  let ?g = "the \<circ> map_of ?st"
  let ?K = "map fst (filter (\<lambda>(k, txn). txn_sipId txn = sipId) ?st)"
  have dst: "distinct (map fst ?st)" and dids: "distinct ?ids" and sets: "set ?ids = set ?K"
    using assms by (simp_all add: sipIndex_ok_def)
  have look: "(k, txn) \<in> set ?st \<Longrightarrow> ?g k = txn" for k txn
    using dst by simp
  have dK: "distinct ?K" using dst by (simp add: distinct_map_filter)
  have dom: "\<forall>k \<in> set ?ids. map_of ?st k \<noteq> None"
    unfolding sets by (auto simp: map_of_eq_None_iff intro: rev_image_eqI)
  have "sum_list (map f (filter Q (TxnRepo_getBySipId sipId r)))
          = sum_list (map (f \<circ> ?g) (filter (Q \<circ> ?g) ?ids))"
    unfolding getBySipId_index_at map_filter_all_some [OF dom] by (simp add: filter_map)
  also have "\<dots> = sum (f \<circ> ?g) (set (filter (Q \<circ> ?g) ?ids))"
    using dids by (simp add: sum_list_distinct_conv_sum_set)
  also have "set (filter (Q \<circ> ?g) ?ids) = set (filter (Q \<circ> ?g) ?K)"
    using sets by simp
  also have "sum (f \<circ> ?g) (set (filter (Q \<circ> ?g) ?K)) = sum_list (map (f \<circ> ?g) (filter (Q \<circ> ?g) ?K))"
    using dK by (simp add: sum_list_distinct_conv_sum_set)
  also have "filter (Q \<circ> ?g) ?K
               = map fst (filter (\<lambda>(k, txn). txn_sipId txn = sipId \<and> Q txn) ?st)"
  proof -
    have "filter (Q \<circ> ?g) ?K
            = map fst (filter (\<lambda>x. (case x of (k, txn) \<Rightarrow> txn_sipId txn = sipId) \<and> Q (?g (fst x))) ?st)"
      by (simp add: filter_map comp_def conj_commute)
    also have "filter (\<lambda>x. (case x of (k, txn) \<Rightarrow> txn_sipId txn = sipId) \<and> Q (?g (fst x))) ?st
                 = filter (\<lambda>(k, txn). txn_sipId txn = sipId \<and> Q txn) ?st"
      by (rule filter_cong) (use look in auto)
    finally show ?thesis .
  qed
  also have "map (f \<circ> ?g) (map fst (filter (\<lambda>(k, txn). txn_sipId txn = sipId \<and> Q txn) ?st))
               = map f (filter (\<lambda>txn. txn_sipId txn = sipId \<and> Q txn) (map snd ?st))"
  proof -
    have "map (f \<circ> ?g) (map fst (filter (\<lambda>(k, txn). txn_sipId txn = sipId \<and> Q txn) ?st))
            = map (f \<circ> snd) (filter (\<lambda>(k, txn). txn_sipId txn = sipId \<and> Q txn) ?st)"
      unfolding map_map by (rule map_cong) (use look in auto)
    also have "\<dots> = map f (filter (\<lambda>txn. txn_sipId txn = sipId \<and> Q txn) (map snd ?st))"
      by (simp add: filter_map comp_def case_prod_unfold)
    finally show ?thesis .
  qed
  finally show ?thesis .
qed
lemma alist_update_fresh: "map_of al k = None \<Longrightarrow> AList.update k v al = al @ [(k, v)]"
  by (induction al) (auto split: if_splits)

lemma set_set_insert: "set (set_insert x xs) = insert x (set xs)"
  by (auto simp: set_insert_def set_insort_key)

lemma distinct_set_insert: "distinct xs \<Longrightarrow> distinct (set_insert x xs)"
  by (simp add: set_insert_def distinct_insort)

lemma index_at_insert:
  "index_at (index_insert k x idx) k' = (if k' = k then set_insert x (index_at idx k) else index_at idx k')"
  by (simp add: index_at_def index_insert_def)

lemma sipIndex_ok_add:
  assumes "sipIndex_ok r sipId" "TxnRepo_getById (txn_id txn) r = None"
  shows "sipIndex_ok (TxnRepo_add txn r) sipId"
proof -
  have fresh: "map_of (txn_storage r) (txn_id txn) = None"
    using assms(2) by (simp add: TxnRepo_getById_def)
  then have notin: "txn_id txn \<notin> fst ` set (txn_storage r)"
    by (simp add: map_of_eq_None_iff)
  show ?thesis
    using assms(1) notin
    by (auto simp: sipIndex_ok_def TxnRepo_add_def alist_update_fresh [OF fresh] index_at_insert
          set_set_insert distinct_set_insert)
qed

lemma alist_update_same_class:
  "distinct (map fst al) \<Longrightarrow> map_of al k = Some old \<Longrightarrow> P old = P v \<Longrightarrow>
     map fst (filter (\<lambda>(k, x). P x) (AList.update k v al)) = map fst (filter (\<lambda>(k, x). P x) al)"
  by (induction al) (auto split: if_splits simp: rev_image_eqI)

lemma sipIndex_ok_settle:
  assumes "sipIndex_ok r sipId" "TxnRepo_getById (txn_id txn) r = Some txn"
  shows "sipIndex_ok (snd (TxnRepo_update (settle status txn) r)) sipId"
proof -
  have look: "map_of (txn_storage r) (txn_id txn) = Some txn"
    using assms(2) by (simp add: TxnRepo_getById_def)
  have d: "distinct (map fst (txn_storage r))" using assms(1) by (simp add: sipIndex_ok_def)
  have keys: "map fst (AList.update (txn_id txn) (settle status txn) (txn_storage r))
                = map fst (txn_storage r)"
    using look by (simp add: update_keys map_of_eq_None_iff [symmetric] del: map_of_eq_None_iff)
  have cls: "map fst (filter (\<lambda>(k, x). txn_sipId x = sipId)
                        (AList.update (txn_id txn) (settle status txn) (txn_storage r)))
               = map fst (filter (\<lambda>(k, x). txn_sipId x = sipId) (txn_storage r))"
    using d look by (rule alist_update_same_class) (simp add: settle_def)
  show ?thesis
    using assms(1) look keys cls
    by (simp add: sipIndex_ok_def TxnRepo_update_def settle_def)
qed

text \<open>
  The valuation example of the specification: two successful transactions of the example
  SIP, (amount 1000, units 10) and (amount 1100, units 10), at a current price of 120.
\<close>

definition ledger_txn :: "string \<Rightarrow> real \<Rightarrow> real \<Rightarrow> Transaction" where
  "ledger_txn ident amount units =
     \<lparr> txn_id = ident, txn_sipId = ''SIP_000001'', txn_amount = amount, txn_units = units,
       txn_nav = amount / units, txn_status = SUCCESS, txn_date = jan31_2024,
       txn_type = INSTALLMENT, txn_callbackProcessed = True \<rparr>"

definition ledger2 :: InMemoryTransactionRepository where
  "ledger2 =
     \<lparr> txn_storage = [(''TXN_000002'', ledger_txn ''TXN_000002'' 1000 10),
                      (''TXN_000003'', ledger_txn ''TXN_000003'' 1100 10)],
       sipIndex = [''SIP_000001'' \<mapsto> [''TXN_000002'', ''TXN_000003'']] \<rparr>"

definition nav120 :: "string \<Rightarrow> error + real" where
  "nav120 = MockMarketPriceService_getCurrentNAV [''FUND_000004'' \<mapsto> 120]"

lemma ledger2_facts:
  "sipIndex_ok ledger2 (sip_id sip1)"
  "nav120 (sip_fundId sip1) = Inr 120"
  "filter (\<lambda>txn. txn_sipId txn = sip_id sip1 \<and> txn_status txn = SUCCESS) (map snd (txn_storage ledger2))
     = [ledger_txn ''TXN_000002'' 1000 10, ledger_txn ''TXN_000003'' 1100 10]"
  "amounts_ok ledger2"
  by (simp_all add: sipIndex_ok_def ledger2_def index_at_def sip1_def ledger_txn_def nav120_def
        MockMarketPriceService_getCurrentNAV_def amounts_ok_def)

text \<open>
  The execution engine is the only writer of new ledger entries. The amount it files is
  the stepped-up installment of the SIP, which is positive for a SIP as \<open>createSIP\<close> and
  \<open>modifyStepUp\<close> admit it (a positive base amount, a step-up that is not negative), and
  the reconciler changes the status and the flag of an entry only. So a ledger the program
  builds holds no negative amount.
\<close>

lemma stepped_up_amount_positive:
  assumes "0 < baseAmount" "0 \<le> stepUpPercentage"
  shows "0 < SIPScheduler_calculateSteppedUpAmount baseAmount stepUpPercentage n"
proof (cases "stepUpPercentage \<le> 0 \<or> n \<le> 1")
  case True
  then show ?thesis using assms(1) by (simp add: SIPScheduler_calculateSteppedUpAmount_def)
next
  case False
  have "0 < 1 + stepUpPercentage / 100" using assms(2) by simp
  then have "0 < (1 + stepUpPercentage / 100) ^ nat (n - 1)" by (rule zero_less_power)
  then show ?thesis
    using False assms(1)
    by (simp add: SIPScheduler_calculateSteppedUpAmount_def std_pow_def Let_def)
qed

lemma alist_update_all:
  assumes "\<forall>(k, v) \<in> set al. P v" "P v'"
  shows "\<forall>(k, v) \<in> set (AList.update k' v' al). P v"
  using assms by (induction al) (auto split: if_splits)

lemma amounts_ok_add:
  "amounts_ok r \<Longrightarrow> 0 \<le> txn_amount txn \<Longrightarrow> amounts_ok (TxnRepo_add txn r)"
  unfolding amounts_ok_def TxnRepo_add_def
  using alist_update_all [of "txn_storage r" "\<lambda>t. 0 \<le> txn_amount t" txn "txn_id txn"] by simp

lemma handlePaymentCallback_amounts:
  assumes "txn_repo_ok (transactionRepository sys)" "amounts_ok (transactionRepository sys)"
  shows "amounts_ok (transactionRepository (snd (handlePaymentCallback k sipId status sys)))"
proof (cases "TxnRepo_getById k (transactionRepository sys)")
  case None
  then show ?thesis using assms(2) by (simp add: handlePaymentCallback_absent)
next
  case (Some txn)
  show ?thesis
  proof (cases "txn_callbackProcessed txn")
    case True
    then show ?thesis using assms(2) Some by (simp add: handlePaymentCallback_processed)
  next
    case False
    have "(k, txn) \<in> set (txn_storage (transactionRepository sys))"
      using Some by (auto simp: TxnRepo_getById_def dest: map_of_SomeD)
    then have "0 \<le> txn_amount (settle status txn)"
      using assms(2) by (auto simp: amounts_ok_def settle_def)
    then show ?thesis
      unfolding handlePaymentCallback_txn_repo [OF assms(1) Some False]
      using assms(2)
        alist_update_all [of "txn_storage (transactionRepository sys)" "\<lambda>t. 0 \<le> txn_amount t"
          "settle status txn" k]
      by (simp add: amounts_ok_def store_txn_def)
  qed
qed

lemma deliver_amounts:
  "txn_repo_ok (transactionRepository sys) \<Longrightarrow> amounts_ok (transactionRepository sys) \<Longrightarrow>
     amounts_ok (transactionRepository (snd (deliver outcomes k sipId sys)))"
proof (induction outcomes arbitrary: sys)
  case Nil
  then show ?case by simp
next
  case (Cons status outcomes)
  obtain res sys' where step: "handlePaymentCallback k sipId status sys = (res, sys')"
    by (cases "handlePaymentCallback k sipId status sys") auto
  have ok': "txn_repo_ok (transactionRepository sys')"
    using handlePaymentCallback_keeps_ok [OF Cons.prems(1), of k sipId status] step by simp
  have am': "amounts_ok (transactionRepository sys')"
    using handlePaymentCallback_amounts [OF Cons.prems, of k sipId status] step by simp
  show ?case
    using Cons.IH [OF ok' am'] am' step by (cases res) simp_all
qed

lemma executeSIP_amounts:
  assumes "txn_repo_ok (transactionRepository sys)" "amounts_ok (transactionRepository sys)"
    "0 < sip_baseAmount sip" "0 \<le> sip_stepUpPercentage sip"
  shows "amounts_ok (transactionRepository (snd (executeSIP env sip executionDate sys)))"
proof (cases "sip_state sip = ACTIVE")
  case False
  then show ?thesis using assms(2) by (simp add: executeSIP_inactive)
next
  case True
  show ?thesis
  proof (cases "getCurrentNAV env (sip_fundId sip)")
    case (Inl e)
    then show ?thesis using assms(2) by (simp add: executeSIP_no_nav [OF True Inl])
  next
    case (Inr nav)
    let ?id = "fst (generateTransactionId (counter sys))"
    let ?txn = "created_txn sip nav executionDate ?id"
    let ?sys1 = "sys\<lparr>counter := snd (generateTransactionId (counter sys)),
                    transactionRepository := TxnRepo_add ?txn (transactionRepository sys)\<rparr>"
    have "0 \<le> txn_amount ?txn"
      using stepped_up_amount_positive [OF assms(3,4), of "sip_installmentCount sip + 1"]
      by (simp add: created_txn_def)
    then have am1: "amounts_ok (transactionRepository ?sys1)"
      using assms(2) by (simp add: amounts_ok_add)
    have ok1: "txn_repo_ok (transactionRepository ?sys1)"
      using assms(1) by (simp add: txn_repo_ok_add)
    show ?thesis
      unfolding executeSIP_run [OF True Inr] by (rule deliver_amounts [OF ok1 am1])
  qed
qed

lemma amounts_ok_total:
  assumes "amounts_ok r"
  shows "0 \<le> sum_list (map txn_amount (filter Q (map snd (txn_storage r))))"
proof (rule sum_list_nonneg)
  fix x
  assume "x \<in> set (map txn_amount (filter Q (map snd (txn_storage r))))"
  then obtain k txn where "(k, txn) \<in> set (txn_storage r)" "x = txn_amount txn" by auto
  then show "0 \<le> x" using assms by (auto simp: amounts_ok_def)
qed

section \<open>Claim about the valuation\<close>

text \<open>
  Claim C6. For a SIP whose index entry is in step with the ledger, in a ledger without
  negative amounts, the valuation engine computes: total invested, the sum of the amounts
  of the stored transactions of that SIP with status SUCCESS; total units, the sum of their
  units; current value, total units times the current price (the price the service
  returns, or 0 when the service throws); gain or loss, current value minus total
  invested; and the percentage \<open>gainLoss / totalInvested * 100\<close>, with the value 0 when
  the total invested is 0.
\<close>

theorem valuation_totals:
  assumes "sipIndex_ok txnRepo (sip_id sip)" "amounts_ok txnRepo"
  shows "totalInvested (buildPortfolioItem fundNames currentNAV txnRepo sip)
           = sum_list (map txn_amount
               (filter (\<lambda>txn. txn_sipId txn = sip_id sip \<and> txn_status txn = SUCCESS)
                  (map snd (txn_storage txnRepo))))
    \<and> totalUnits (buildPortfolioItem fundNames currentNAV txnRepo sip)
           = sum_list (map txn_units
               (filter (\<lambda>txn. txn_sipId txn = sip_id sip \<and> txn_status txn = SUCCESS)
                  (map snd (txn_storage txnRepo))))
    \<and> currentNav (buildPortfolioItem fundNames currentNAV txnRepo sip)
           = (case currentNAV (sip_fundId sip) of Inr nav \<Rightarrow> nav | Inl e \<Rightarrow> 0)
    \<and> currentValue (buildPortfolioItem fundNames currentNAV txnRepo sip)
           = totalUnits (buildPortfolioItem fundNames currentNAV txnRepo sip)
               * currentNav (buildPortfolioItem fundNames currentNAV txnRepo sip)
    \<and> gainLoss (buildPortfolioItem fundNames currentNAV txnRepo sip)
           = currentValue (buildPortfolioItem fundNames currentNAV txnRepo sip)
               - totalInvested (buildPortfolioItem fundNames currentNAV txnRepo sip)
    \<and> gainLossPercentage (buildPortfolioItem fundNames currentNAV txnRepo sip)
           = (if totalInvested (buildPortfolioItem fundNames currentNAV txnRepo sip) = 0
              then 0
              else gainLoss (buildPortfolioItem fundNames currentNAV txnRepo sip)
                     / totalInvested (buildPortfolioItem fundNames currentNAV txnRepo sip) * 100)"
proof -
  have inv: "totalInvested (buildPortfolioItem fundNames currentNAV txnRepo sip)
           = sum_list (map txn_amount
               (filter (\<lambda>txn. txn_status txn = SUCCESS) (TxnRepo_getBySipId (sip_id sip) txnRepo)))"
    by (simp add: buildPortfolioItem_def Let_def TxnRepo_getSuccessfulBySipId_def
          foldl_plus_sum_list)
  have uni: "totalUnits (buildPortfolioItem fundNames currentNAV txnRepo sip)
           = sum_list (map txn_units
               (filter (\<lambda>txn. txn_status txn = SUCCESS) (TxnRepo_getBySipId (sip_id sip) txnRepo)))"
    by (simp add: buildPortfolioItem_def Let_def TxnRepo_getSuccessfulBySipId_def
          foldl_plus_sum_list)
  note inv' = inv [unfolded sum_over_index [OF assms(1)]]
  note uni' = uni [unfolded sum_over_index [OF assms(1)]]
  have nonneg: "0 \<le> totalInvested (buildPortfolioItem fundNames currentNAV txnRepo sip)"
    unfolding inv' by (rule amounts_ok_total [OF assms(2)])
  have code: "gainLossPercentage (buildPortfolioItem fundNames currentNAV txnRepo sip)
           = (if 0 < totalInvested (buildPortfolioItem fundNames currentNAV txnRepo sip)
              then gainLoss (buildPortfolioItem fundNames currentNAV txnRepo sip)
                     / totalInvested (buildPortfolioItem fundNames currentNAV txnRepo sip) * 100
              else 0)"
    by (simp add: buildPortfolioItem_def Let_def)
  have rest: "currentNav (buildPortfolioItem fundNames currentNAV txnRepo sip)
           = (case currentNAV (sip_fundId sip) of Inr nav \<Rightarrow> nav | Inl e \<Rightarrow> 0)"
    "currentValue (buildPortfolioItem fundNames currentNAV txnRepo sip)
           = totalUnits (buildPortfolioItem fundNames currentNAV txnRepo sip)
               * currentNav (buildPortfolioItem fundNames currentNAV txnRepo sip)"
    "gainLoss (buildPortfolioItem fundNames currentNAV txnRepo sip)
           = currentValue (buildPortfolioItem fundNames currentNAV txnRepo sip)
               - totalInvested (buildPortfolioItem fundNames currentNAV txnRepo sip)"
    by (simp_all add: buildPortfolioItem_def Let_def)
  have pct: "gainLossPercentage (buildPortfolioItem fundNames currentNAV txnRepo sip)
           = (if totalInvested (buildPortfolioItem fundNames currentNAV txnRepo sip) = 0
              then 0
              else gainLoss (buildPortfolioItem fundNames currentNAV txnRepo sip)
                     / totalInvested (buildPortfolioItem fundNames currentNAV txnRepo sip) * 100)"
    unfolding code using nonneg by auto
  show ?thesis
    by (intro conjI) (fact inv' uni' rest pct)+
qed

theorem valuation_totals_witness:
  "sipIndex_ok ledger2 (sip_id sip1) \<and> amounts_ok ledger2
   \<and> totalInvested (buildPortfolioItem Map.empty nav120 ledger2 sip1) = 2100
   \<and> totalUnits (buildPortfolioItem Map.empty nav120 ledger2 sip1) = 20
   \<and> currentValue (buildPortfolioItem Map.empty nav120 ledger2 sip1) = 2400
   \<and> gainLoss (buildPortfolioItem Map.empty nav120 ledger2 sip1) = 300
   \<and> gainLossPercentage (buildPortfolioItem Map.empty nav120 ledger2 sip1) = 100 / 7
   \<and> \<bar>gainLossPercentage (buildPortfolioItem Map.empty nav120 ledger2 sip1) - 14.29\<bar> < 0.005"
proof -
  note t = valuation_totals [OF ledger2_facts(1) ledger2_facts(4), of Map.empty nav120]
  have ti: "totalInvested (buildPortfolioItem Map.empty nav120 ledger2 sip1) = 2100"
    using t unfolding ledger2_facts(3) by (simp add: ledger_txn_def)
  have tu: "totalUnits (buildPortfolioItem Map.empty nav120 ledger2 sip1) = 20"
    using t unfolding ledger2_facts(3) by (simp add: ledger_txn_def)
  have nav: "currentNav (buildPortfolioItem Map.empty nav120 ledger2 sip1) = 120"
    using t by (simp add: ledger2_facts(2))
  have cv: "currentValue (buildPortfolioItem Map.empty nav120 ledger2 sip1) = 2400"
    using t tu nav by simp
  have gl: "gainLoss (buildPortfolioItem Map.empty nav120 ledger2 sip1) = 300"
    using t cv ti by simp
  have pct: "gainLossPercentage (buildPortfolioItem Map.empty nav120 ledger2 sip1) = 100 / 7"
    using t gl ti by simp
  show ?thesis using ledger2_facts(1) ledger2_facts(4) ti tu cv gl pct by simp
qed

section \<open>Claim about the schedule\<close>

text \<open>
  The calendar formula in the words of the specification, for comparison with
  \<open>calculateNextExecutionDate\<close>, over the integers (no 64-bit limit). A date is read
  as a calendar date and time of day, in whole seconds, at the UTC offset in force at
  that date in the time zone of the process. Adding \<open>n\<close> calendar months keeps the time
  of day and the day of the month and moves the month \<open>n\<close> months on; when the target
  month is shorter, the day is clamped to its last day. The last day of a month follows
  the Gregorian rule for leap years. The result is the instant that reads as the new
  calendar date at the same UTC offset. A week is seven days of 86400 seconds.
\<close>

definition spec_last_day_of_month :: "int \<Rightarrow> int \<Rightarrow> int" where
  "spec_last_day_of_month year month =
     (if month = 2
      then (if year mod 4 = 0 \<and> (year mod 100 \<noteq> 0 \<or> year mod 400 = 0) then 29 else 28)
      else if month = 4 \<or> month = 6 \<or> month = 9 \<or> month = 11 then 30 else 31)"

definition spec_add_months :: "tm \<Rightarrow> int \<Rightarrow> tm" where
  "spec_add_months t n =
     (let total = 12 * (tm_year t + 1900) + tm_mon t + n;
          year = total div 12;
          month = total mod 12 + 1
      in t\<lparr>tm_year := year - 1900, tm_mon := month - 1,
            tm_mday := min (tm_mday t) (spec_last_day_of_month year month)\<rparr>)"

definition spec_add_months_date :: "time_zone \<Rightarrow> Date \<Rightarrow> int \<Rightarrow> int" where
  "spec_add_months_date zone date n =
     (let seconds = to_time_t date;
          offset = utc_offset zone seconds;
          reading = civil_time (seconds + offset)
      in (civil_seconds (spec_add_months reading n) - offset) * ticks_per_second)"

definition spec_next_execution_date :: "time_zone \<Rightarrow> Date \<Rightarrow> SIPFrequency \<Rightarrow> int" where
  "spec_next_execution_date zone date frequency =
     (case frequency of
        WEEKLY \<Rightarrow> date + 7 * 86400 * ticks_per_second
      | MONTHLY \<Rightarrow> spec_add_months_date zone date 1
      | QUARTERLY \<Rightarrow> spec_add_months_date zone date 3)"

lemma getDaysInMonth_last_day:
  assumes "0 \<le> m" "m \<le> 11"
  shows "getDaysInMonth y (m + 1) = spec_last_day_of_month y (m + 1)"
proof -
  have leap: "isLeapYear y \<longleftrightarrow> y mod 4 = 0 \<and> (y mod 100 \<noteq> 0 \<or> y mod 400 = 0)"
    using mod_400_100 [of y] mod_100_4 [of y] by (auto simp: isLeapYear_def)
  show ?thesis
    using month_cases [OF assms]
    by (elim disjE)
      (simp_all add: getDaysInMonth_def daysInMonth_def spec_last_day_of_month_def leap)
qed

lemma total_months:
  fixes y k :: int
  shows "(12 * y + k) div 12 = y + k div 12" "(12 * y + k) mod 12 = k mod 12"
  by simp_all

lemma spec_add_months_fields:
  "tm_year (spec_add_months t n) = tm_year t + (tm_mon t + n) div 12"
  "tm_mon (spec_add_months t n) = (tm_mon t + n) mod 12"
  "tm_mday (spec_add_months t n)
     = min (tm_mday t)
         (getDaysInMonth (tm_year t + (tm_mon t + n) div 12 + 1900) ((tm_mon t + n) mod 12 + 1))"
  "tm_hour (spec_add_months t n) = tm_hour t"
  "tm_min (spec_add_months t n) = tm_min t"
  "tm_sec (spec_add_months t n) = tm_sec t"
proof -
  define k where "k = tm_mon t + n"
  have kb: "0 \<le> k mod 12" "k mod 12 \<le> 11" by simp_all
  have tot: "12 * (tm_year t + 1900) + tm_mon t + n = 12 * (tm_year t + 1900) + k"
    by (simp add: k_def)
  note last = getDaysInMonth_last_day [OF kb, of "tm_year t + 1900 + k div 12"]
  show "tm_year (spec_add_months t n) = tm_year t + (tm_mon t + n) div 12"
    "tm_mon (spec_add_months t n) = (tm_mon t + n) mod 12"
    "tm_hour (spec_add_months t n) = tm_hour t"
    "tm_min (spec_add_months t n) = tm_min t"
    "tm_sec (spec_add_months t n) = tm_sec t"
    unfolding spec_add_months_def Let_def tot total_months by (simp_all add: k_def)
  show "tm_mday (spec_add_months t n)
     = min (tm_mday t)
         (getDaysInMonth (tm_year t + (tm_mon t + n) div 12 + 1900) ((tm_mon t + n) mod 12 + 1))"
    unfolding spec_add_months_def Let_def tot total_months
    using last by (simp add: k_def algebra_simps)
qed


lemma moved_fields_spec:
  "civil_seconds (moved_fields t n) = civil_seconds (spec_add_months t n)"
  by (simp add: civil_seconds_def moved_fields_def spec_add_months_fields)


text \<open>
  The code computes the formula and then wraps the result to 64 bits: \<open>addWeeks\<close> in its
  addition, \<open>addMonths\<close> in \<open>from_time_t\<close>.
\<close>

lemma addMonths_formula:
  "addMonths zone date n = wrap64 (spec_add_months_date zone date n)"
  by (simp add: addMonths_unfold moved_fields_spec spec_add_months_date_def Let_def
        from_time_t_def)

lemma one_week: "wrap64 (wrap32 (24 * 7 * 1) * 3600 * ticks_per_second) = 7 * 86400 * ticks_per_second"
  by (simp add: wrap32_def wrap64_def ticks_per_second_def)

lemma calculateNextExecutionDate_formula:
  "calculateNextExecutionDate zone date frequency
     = wrap64 (spec_next_execution_date zone date frequency)"
proof (cases frequency)
  case WEEKLY
  then show ?thesis
    unfolding calculateNextExecutionDate_def spec_next_execution_date_def addWeeks_def one_week
    by simp
next
  case MONTHLY
  then show ?thesis
    by (simp add: calculateNextExecutionDate_def spec_next_execution_date_def addMonths_formula)
next
  case QUARTERLY
  have "wrap32 (1 * 3) = 3" by (simp add: wrap32_def)
  then show ?thesis
    using QUARTERLY
    by (simp add: calculateNextExecutionDate_def spec_next_execution_date_def addQuarters_def
          addMonths_formula)
qed












text \<open>
  The example SIP is due on 31 January 2024, midnight UTC: a month later is 29 February
  2024, a quarter later 30 April 2024, a week later 7 February 2024.
\<close>

lemma civil_time_jan31:
  "civil_time 1706659200
     = \<lparr> tm_sec = 0, tm_min = 0, tm_hour = 0, tm_mday = 31, tm_mon = 0, tm_year = 124,
         tm_isdst = 0 \<rparr>"
  by code_simp


lemma spec_add_months_jan31:
  "spec_add_months \<lparr> tm_sec = 0, tm_min = 0, tm_hour = 0, tm_mday = 31, tm_mon = 0, tm_year = 124,
                     tm_isdst = 0 \<rparr> 1
     = \<lparr> tm_sec = 0, tm_min = 0, tm_hour = 0, tm_mday = 29, tm_mon = 1, tm_year = 124,
         tm_isdst = 0 \<rparr>"
  "spec_add_months \<lparr> tm_sec = 0, tm_min = 0, tm_hour = 0, tm_mday = 31, tm_mon = 0, tm_year = 124,
                     tm_isdst = 0 \<rparr> 3
     = \<lparr> tm_sec = 0, tm_min = 0, tm_hour = 0, tm_mday = 30, tm_mon = 3, tm_year = 124,
         tm_isdst = 0 \<rparr>"
  by (simp_all add: spec_add_months_def Let_def spec_last_day_of_month_def)

lemma civil_seconds_examples:
  "civil_seconds \<lparr> tm_sec = 0, tm_min = 0, tm_hour = 0, tm_mday = 29, tm_mon = 1, tm_year = 124,
                   tm_isdst = 0 \<rparr> = 1709164800"
  "civil_seconds \<lparr> tm_sec = 0, tm_min = 0, tm_hour = 0, tm_mday = 30, tm_mon = 3, tm_year = 124,
                   tm_isdst = 0 \<rparr> = 1714435200"
  by (simp_all add: civil_seconds_def days_from_civil_def days_before_year_def leaps_before_def
        days_before_month_def isLeapYear_def)

lemma utc_facts: "utc_offset utc t = 0" "in_dst utc t = False"
  by (simp_all add: utc_offset_def utc_def)




text \<open>
  The time zone matters. The instant 30 January 2024, 18:30 UTC is midnight of 31 January
  in a zone five and a half hours east of UTC without daylight saving: there one month
  later is midnight of 29 February local time, a day before the date one month later in
  UTC, where the same instant is 18:30 on 30 January.
\<close>

definition ist :: time_zone where
  "ist = \<lparr> std_offset = 19800, dst_offset = 19800, in_dst = (\<lambda>t. False) \<rparr>"

lemma civil_time_jan30:
  "civil_time 1706639400
     = \<lparr> tm_sec = 0, tm_min = 30, tm_hour = 18, tm_mday = 30, tm_mon = 0, tm_year = 124,
         tm_isdst = 0 \<rparr>"
  by code_simp

lemma jan30_moved:
  "spec_add_months \<lparr> tm_sec = 0, tm_min = 30, tm_hour = 18, tm_mday = 30, tm_mon = 0,
                     tm_year = 124, tm_isdst = 0 \<rparr> 1
     = \<lparr> tm_sec = 0, tm_min = 30, tm_hour = 18, tm_mday = 29, tm_mon = 1, tm_year = 124,
         tm_isdst = 0 \<rparr>"
  "civil_seconds \<lparr> tm_sec = 0, tm_min = 30, tm_hour = 18, tm_mday = 29, tm_mon = 1,
                   tm_year = 124, tm_isdst = 0 \<rparr> = 1709231400"
  by (simp_all add: spec_add_months_def Let_def spec_last_day_of_month_def
        civil_seconds_def days_from_civil_def days_before_year_def leaps_before_def
        days_before_month_def isLeapYear_def)

lemma time_zone_example:
  "calculateNextExecutionDate ist (1706639400 * ticks_per_second) MONTHLY
     = 1709145000 * ticks_per_second"
  "calculateNextExecutionDate utc (1706639400 * ticks_per_second) MONTHLY
     = 1709231400 * ticks_per_second"
proof -
  have ist: "utc_offset ist 1706639400 = 19800" by (simp add: utc_offset_def ist_def)
  have a: "spec_next_execution_date ist (1706639400 * ticks_per_second) MONTHLY
             = 1709145000 * ticks_per_second"
    by (simp add: spec_next_execution_date_def spec_add_months_date_def Let_def to_time_t_ticks
          ist civil_time_jan31 spec_add_months_jan31 civil_seconds_examples)
  have b: "spec_next_execution_date utc (1706639400 * ticks_per_second) MONTHLY
             = 1709231400 * ticks_per_second"
    by (simp add: spec_next_execution_date_def spec_add_months_date_def Let_def to_time_t_ticks
          utc_facts civil_time_jan30 jan30_moved)
  show "calculateNextExecutionDate ist (1706639400 * ticks_per_second) MONTHLY
     = 1709145000 * ticks_per_second"
    unfolding calculateNextExecutionDate_formula a
    by (rule wrap64_id) (simp add: int64_range_def ticks_per_second_def)
  show "calculateNextExecutionDate utc (1706639400 * ticks_per_second) MONTHLY
     = 1709231400 * ticks_per_second"
    unfolding calculateNextExecutionDate_formula b
    by (rule wrap64_id) (simp add: int64_range_def ticks_per_second_def)
qed

text \<open>
  Daylight saving matters too. In a zone one hour east of UTC with daylight saving from
  31 March to 27 October 2024, a monthly SIP due at 00:30 local time on 15 March gets the
  instant that is 00:30 on 15 April at the winter offset; daylight saving being in force
  by then, that instant reads 01:30 on 15 April in local time.
\<close>

definition cet :: time_zone where
  "cet = \<lparr> std_offset = 3600, dst_offset = 7200,
            in_dst = (\<lambda>t. 1711846800 \<le> t \<and> t < 1729990800) \<rparr>"

lemma civil_time_cet:
  "civil_time 1710462600
     = \<lparr> tm_sec = 0, tm_min = 30, tm_hour = 0, tm_mday = 15, tm_mon = 2, tm_year = 124,
         tm_isdst = 0 \<rparr>"
  "civil_time 1713144600
     = \<lparr> tm_sec = 0, tm_min = 30, tm_hour = 1, tm_mday = 15, tm_mon = 3, tm_year = 124,
         tm_isdst = 0 \<rparr>"
  by code_simp+

lemma mar15_moved:
  "spec_add_months \<lparr> tm_sec = 0, tm_min = 30, tm_hour = 0, tm_mday = 15, tm_mon = 2,
                     tm_year = 124, tm_isdst = 0 \<rparr> 1
     = \<lparr> tm_sec = 0, tm_min = 30, tm_hour = 0, tm_mday = 15, tm_mon = 3, tm_year = 124,
         tm_isdst = 0 \<rparr>"
  "civil_seconds \<lparr> tm_sec = 0, tm_min = 30, tm_hour = 0, tm_mday = 15, tm_mon = 3,
                   tm_year = 124, tm_isdst = 0 \<rparr> = 1713141000"
  by (simp_all add: spec_add_months_def Let_def spec_last_day_of_month_def
        civil_seconds_def days_from_civil_def days_before_year_def leaps_before_def
        days_before_month_def isLeapYear_def)

lemma daylight_saving_example:
  "calculateNextExecutionDate cet (1710459000 * ticks_per_second) MONTHLY
     = 1713137400 * ticks_per_second"
  "localtime cet 1710459000
     = \<lparr> tm_sec = 0, tm_min = 30, tm_hour = 0, tm_mday = 15, tm_mon = 2, tm_year = 124,
         tm_isdst = 0 \<rparr>"
  "localtime cet 1713137400
     = \<lparr> tm_sec = 0, tm_min = 30, tm_hour = 1, tm_mday = 15, tm_mon = 3, tm_year = 124,
         tm_isdst = 1 \<rparr>"
  "spec_add_months (localtime cet 1710459000) 1
     = \<lparr> tm_sec = 0, tm_min = 30, tm_hour = 0, tm_mday = 15, tm_mon = 3, tm_year = 124,
         tm_isdst = 0 \<rparr>"
proof -
  have off: "utc_offset cet 1710459000 = 3600" "utc_offset cet 1713137400 = 7200"
    "in_dst cet 1710459000 = False" "in_dst cet 1713137400 = True"
    by (simp_all add: utc_offset_def cet_def)
  show old: "localtime cet 1710459000
     = \<lparr> tm_sec = 0, tm_min = 30, tm_hour = 0, tm_mday = 15, tm_mon = 2, tm_year = 124,
         tm_isdst = 0 \<rparr>"
    by (simp add: localtime_def off civil_time_cet)
  show "localtime cet 1713137400
     = \<lparr> tm_sec = 0, tm_min = 30, tm_hour = 1, tm_mday = 15, tm_mon = 3, tm_year = 124,
         tm_isdst = 1 \<rparr>"
    by (simp add: localtime_def off civil_time_cet)
  show "spec_add_months (localtime cet 1710459000) 1
     = \<lparr> tm_sec = 0, tm_min = 30, tm_hour = 0, tm_mday = 15, tm_mon = 3, tm_year = 124,
         tm_isdst = 0 \<rparr>"
    unfolding old by (rule mar15_moved(1))
  have a: "spec_next_execution_date cet (1710459000 * ticks_per_second) MONTHLY
             = 1713137400 * ticks_per_second"
    by (simp add: spec_next_execution_date_def spec_add_months_date_def Let_def to_time_t_ticks
          off civil_time_cet mar15_moved)
  show "calculateNextExecutionDate cet (1710459000 * ticks_per_second) MONTHLY
     = 1713137400 * ticks_per_second"
    unfolding calculateNextExecutionDate_formula a
    by (rule wrap64_id) (simp add: int64_range_def ticks_per_second_def)
qed

end
